theory Spec2Isabelle
  imports Complex_Main "HOL-Library.Sublist"
begin

section \<open>JavaScript values used by the plugin\<close>

text \<open>
  Strings are \<^typ>\<open>string\<close>. An optional property (\<open>httpUrl?: string\<close>) is an
  \<^typ>\<open>string option\<close>, \<open>None\<close> standing for \<open>undefined\<close>. A string is truthy when it
  is present and not empty.
\<close>

definition truthy :: "string option \<Rightarrow> bool" where
  "truthy s = (case s of None \<Rightarrow> False | Some v \<Rightarrow> v \<noteq> [])"

definition digit_char :: "nat \<Rightarrow> char" where
  "digit_char d = (''0123456789'' ! d)"

text \<open>\<open>String(n)\<close> for a non-negative integer: its decimal digits.\<close>

fun string_of_nat :: "nat \<Rightarrow> string" where
  "string_of_nat n =
     (if n < 10 then [digit_char n]
      else string_of_nat (n div 10) @ [digit_char (n mod 10)])"

declare string_of_nat.simps [simp del]

text \<open>\<open>String(n)\<close> for an integer (ids and timestamps stay far below \<open>1e21\<close>, where
  JavaScript would switch to exponent notation).\<close>

definition String_num :: "int \<Rightarrow> string" where
  "String_num i = (if i < 0 then CHR ''-'' # string_of_nat (nat (- i)) else string_of_nat (nat i))"

text \<open>\<open>s.startsWith(p)\<close> is \<^const>\<open>prefix\<close>, \<open>s.includes(p)\<close> is \<^const>\<open>sublist\<close>.\<close>

text \<open>\<open>s.replace(/\/$/, '')\<close>: one trailing slash is removed.\<close>

definition strip_trailing_slash :: "string \<Rightarrow> string" where
  "strip_trailing_slash s = (if s \<noteq> [] \<and> last s = CHR ''/'' then butlast s else s)"

text \<open>\<open>s.replace(/^\//, '')\<close>: one leading slash is removed.\<close>

definition strip_leading_slash :: "string \<Rightarrow> string" where
  "strip_leading_slash s = (case s of [] \<Rightarrow> [] | c # cs \<Rightarrow> if c = CHR ''/'' then cs else s)"

text \<open>
  A JSON value where the code reads a property whose type the wire does not fix.
  A property that is missing is \<open>None\<close> of \<^typ>\<open>'a option\<close>.
\<close>

datatype json = JString string | JNumber int | JBool bool | JNull

text \<open>\<open>String(v)\<close>\<close>

definition String_json :: "json option \<Rightarrow> string" where
  "String_json v =
     (case v of
        None \<Rightarrow> ''undefined''
      | Some (JString s) \<Rightarrow> s
      | Some (JNumber n) \<Rightarrow> String_num n
      | Some (JBool b) \<Rightarrow> (if b then ''true'' else ''false'')
      | Some JNull \<Rightarrow> ''null'')"

text \<open>How \<open>Array.prototype.join\<close> prints an element: \<open>undefined\<close> and \<open>null\<close> print
  as the empty string.\<close>

definition join_element :: "json option \<Rightarrow> string" where
  "join_element v =
     (case v of None \<Rightarrow> [] | Some JNull \<Rightarrow> [] | Some w \<Rightarrow> String_json (Some w))"

definition truthy_json :: "json option \<Rightarrow> bool" where
  "truthy_json v =
     (case v of
        None \<Rightarrow> False
      | Some (JString s) \<Rightarrow> s \<noteq> []
      | Some (JNumber n) \<Rightarrow> n \<noteq> 0
      | Some (JBool b) \<Rightarrow> b
      | Some JNull \<Rightarrow> False)"

text \<open>\<open>s.trim()\<close>, on the ASCII white space (space, tab, line feed, vertical tab, form
  feed, carriage return). JavaScript also trims U+00A0 and the other Unicode white
  space, which a \<^typ>\<open>string\<close> here does not hold.\<close>

definition is_space :: "char \<Rightarrow> bool" where
  "is_space ch = (ch \<in> set [CHR '' '', CHR 0x09, CHR 0x0A, CHR 0x0B, CHR 0x0C, CHR 0x0D])"

definition trim :: "string \<Rightarrow> string" where
  "trim s = rev (dropWhile is_space (rev (dropWhile is_space s)))"

section \<open>types.ts\<close>

record NapCatAccount =
  wsUrl :: "string option"
  httpUrl :: "string option"
  token :: "string option"
  adminUins :: "int list option"

text \<open>
  An action response as it arrives on the wire. The frame is arbitrary JSON, so every
  field the code reads may be missing; \<open>data\<close> is kept as opaque text.
\<close>

record OB11Response =
  status :: "string option"
  retcode :: "int option"
  data :: string
  message :: "string option"
  wording :: "string option"
  echo :: "string option"

record OB11MessageSegment =
  seg_type :: string
  seg_data :: "(string \<times> json) list"

text \<open>\<open>message: OB11MessageSegment[] | string\<close>\<close>

datatype message_body = Segments "OB11MessageSegment list" | Plain string

record OB11MessageEvent =
  time :: int
  self_id :: int
  message_type :: string
  message_id :: int
  user_id :: int
  group_id :: "int option"
  ev_message :: message_body
  sender_nickname :: string

text \<open>\<open>message: OB11MessageSegment[] | string\<close> of the send parameters; the reply text
  itself may be \<open>undefined\<close>.\<close>

datatype message_out = OutText "string option" | OutSegments "OB11MessageSegment list"

record OB11SendMessageParams =
  sp_message_type :: string
  sp_user_id :: "int option"
  sp_group_id :: "int option"
  sp_message :: message_out

text \<open>
  A frame of the socket after \<open>JSON.parse\<close>: one JSON object, read as an action
  response where the code reads \<open>echo\<close>, \<open>status\<close>, ..., and as a message event where
  it hands the object to \<open>onMessage\<close>.
\<close>

record inbound_frame =
  as_response :: OB11Response
  post_type :: "string option"
  meta_event_type :: "string option"
  sub_type :: "string option"
  as_message :: OB11MessageEvent

section \<open>api/client.ts: the action client\<close>

datatype readyState = CONNECTING | OPEN | CLOSING | CLOSED

text \<open>
  A promise returned by \<open>requestWs\<close> is identified by a number. Every invocation of its
  \<open>resolve\<close> or \<open>reject\<close> is appended to the client's \<open>settled\<close> log, so that a call
  whose callbacks fired twice would show two entries.
\<close>

datatype outcome = Resolved string | Rejected string

text \<open>
  \<open>responseEmitter\<close> holds the \<open>once\<close> listeners in registration order, each under its
  event name (the echo) and with the promise it settles. \<open>timeouts\<close> holds the armed
  \<open>setTimeout\<close> handles of \<open>requestWs\<close>: promise, echo, action and delay in ms.
  \<open>ws\<close> is a reference to a socket object (its number in the store of sockets).
  \<open>sent\<close> logs the frames handed to \<open>ws.send\<close>.
\<close>

record ws_frame =
  f_action :: string
  f_params :: string
  f_echo :: string

record NapCatApiClient =
  c_httpUrl :: "string option"
  c_token :: "string option"
  ws :: "nat option"
  responseEmitter :: "(string \<times> nat) list"
  timeouts :: "(nat \<times> string \<times> string \<times> nat) list"
  wsSequence :: nat
  nextPromise :: nat
  settled :: "(nat \<times> outcome) list"
  sent :: "(nat \<times> ws_frame) list"

definition new_NapCatApiClient :: "NapCatAccount \<Rightarrow> NapCatApiClient" where
  "new_NapCatApiClient config =
     \<lparr> c_httpUrl = (if truthy (httpUrl config)
                     then Some (strip_trailing_slash (the (httpUrl config))) else None),
       c_token = token config,
       ws = None,
       responseEmitter = [],
       timeouts = [],
       wsSequence = 0,
       nextPromise = 0,
       settled = [],
       sent = [] \<rparr>"

definition setWs :: "nat option \<Rightarrow> NapCatApiClient \<Rightarrow> NapCatApiClient" where
  "setWs w c = c\<lparr>ws := w\<rparr>"

text \<open>The two error messages a settled socket call can carry.\<close>

definition timeout_message :: "string \<Rightarrow> string" where
  "timeout_message action = ''WebSocket API request timed out: '' @ action"

definition template_num :: "int option \<Rightarrow> string" where
  "template_num n = (case n of None \<Rightarrow> ''undefined'' | Some i \<Rightarrow> String_num i)"

definition template_str :: "string option \<Rightarrow> string" where
  "template_str s = (case s of None \<Rightarrow> ''undefined'' | Some v \<Rightarrow> v)"

definition api_error_message :: "OB11Response \<Rightarrow> string" where
  "api_error_message r =
     ''NapCat API error: ['' @ template_num (retcode r) @ ''] '' @
     template_str (if truthy (message r) then message r else wording r)"

text \<open>\<open>response.status === 'failed' && response.retcode !== 0\<close>\<close>

definition is_failure :: "OB11Response \<Rightarrow> bool" where
  "is_failure r = (status r = Some ''failed'' \<and> retcode r \<noteq> Some 0)"

text \<open>The \<open>once\<close> listener of \<open>requestWs\<close>, run for promise \<open>p\<close>: it clears its timer and
  settles the promise from the response.\<close>

definition clearTimeout :: "nat \<Rightarrow> NapCatApiClient \<Rightarrow> NapCatApiClient" where
  "clearTimeout p c = c\<lparr>timeouts := filter (\<lambda>t. fst t \<noteq> p) (timeouts c)\<rparr>"

definition settle :: "nat \<Rightarrow> outcome \<Rightarrow> NapCatApiClient \<Rightarrow> NapCatApiClient" where
  "settle p out c = c\<lparr>settled := settled c @ [(p, out)]\<rparr>"

definition on_response :: "OB11Response \<Rightarrow> nat \<Rightarrow> NapCatApiClient \<Rightarrow> NapCatApiClient" where
  "on_response r p c =
     settle p (if is_failure r then Rejected (api_error_message r) else Resolved (data r))
       (clearTimeout p c)"

text \<open>
  \<open>responseEmitter.emit(name, payload)\<close>: the listeners registered under \<open>name\<close> are
  taken off the emitter (they are \<open>once\<close> listeners) and run in registration order.
  Node throws when the event \<open>error\<close> is emitted and has no listener.
\<close>

definition emit :: "string \<Rightarrow> OB11Response \<Rightarrow> NapCatApiClient \<Rightarrow> string + NapCatApiClient" where
  "emit name r c =
     (let ls = filter (\<lambda>l. fst l = name) (responseEmitter c) in
      if name = ''error'' \<and> ls = [] then Inl ''Unhandled error''
      else Inr (fold (\<lambda>l. on_response r (snd l)) ls
                  (c\<lparr>responseEmitter := filter (\<lambda>l. fst l \<noteq> name) (responseEmitter c)\<rparr>)))"

definition handleWsResponse :: "OB11Response \<Rightarrow> NapCatApiClient \<Rightarrow> string + NapCatApiClient" where
  "handleWsResponse payload c =
     (if truthy (echo payload) then emit (the (echo payload)) payload c else Inr c)"

text \<open>The timeout callback of \<open>requestWs\<close> for promise \<open>p\<close>. A handle that is no longer
  armed (cleared, or fired already) never runs.\<close>

definition on_timeout :: "nat \<Rightarrow> NapCatApiClient \<Rightarrow> NapCatApiClient" where
  "on_timeout p c =
     (case filter (\<lambda>t. fst t = p) (timeouts c) of
        [] \<Rightarrow> c
      | t # _ \<Rightarrow>
          (let e = fst (snd t); action = fst (snd (snd t)) in
           settle p (Rejected (timeout_message action))
             (c\<lparr>timeouts := filter (\<lambda>t. fst t \<noteq> p) (timeouts c),
                responseEmitter := filter (\<lambda>l. fst l \<noteq> e) (responseEmitter c)\<rparr>)))"

definition make_echo :: "nat \<Rightarrow> nat \<Rightarrow> string" where
  "make_echo now seq = ''api_'' @ string_of_nat now @ ''_'' @ string_of_nat seq"

text \<open>
  \<open>requestWs\<close>. \<open>now\<close> is what \<open>Date.now()\<close> returns. The result names the new promise.
  \<open>request\<close> is its only caller and has just seen the socket open, so \<open>ws.send\<close> sends.
  The counter is a natural number (a JavaScript number counts exactly far beyond any
  number of calls a client lives to make).
\<close>

definition requestWs :: "string \<Rightarrow> string \<Rightarrow> nat \<Rightarrow> NapCatApiClient \<Rightarrow> nat \<times> NapCatApiClient" where
  "requestWs endpoint params now c =
     (let p = nextPromise c; c0 = c\<lparr>nextPromise := Suc p\<rparr> in
      case ws c of
        None \<Rightarrow> (p, settle p (Rejected ''WebSocket not initialized'') c0)
      | Some sock \<Rightarrow>
          (let e = make_echo now (wsSequence c);
               action = strip_leading_slash endpoint in
           (p, c0\<lparr>wsSequence := Suc (wsSequence c),
                  timeouts := timeouts c @ [(p, e, action, 10000)],
                  responseEmitter := responseEmitter c @ [(e, p)],
                  sent := sent c @ [(sock, \<lparr>f_action = action, f_params = params, f_echo = e\<rparr>)]\<rparr>)))"

record http_request =
  h_url :: string
  h_headers :: "(string \<times> string) list"
  h_body :: string

definition requestHttp :: "string \<Rightarrow> string \<Rightarrow> NapCatApiClient \<Rightarrow> http_request" where
  "requestHttp endpoint body c =
     \<lparr> h_url = template_str (c_httpUrl c) @ endpoint,
       h_headers = [(''Content-Type'', ''application/json'')] @
                   (if truthy (c_token c) then [(''Authorization'', ''Bearer '' @ the (c_token c))] else []),
       h_body = body \<rparr>"

text \<open>
  \<open>request\<close>: which transport carries the call. \<open>rs\<close> reads \<open>readyState\<close> of a socket
  object. The thrown error is \<open>Inl\<close>.
\<close>

datatype transport = ViaHttp http_request | ViaSocket nat

definition no_transport :: string where
  "no_transport = ''No available transport for API request (HTTP not configured, WS not connected)''"

definition request ::
  "(nat \<Rightarrow> readyState) \<Rightarrow> string \<Rightarrow> string \<Rightarrow> nat \<Rightarrow> NapCatApiClient \<Rightarrow> string + (transport \<times> NapCatApiClient)" where
  "request rs endpoint body now c =
     (if truthy (c_httpUrl c) then Inr (ViaHttp (requestHttp endpoint body c), c)
      else if ws c \<noteq> None \<and> rs (the (ws c)) = OPEN
           then (case requestWs endpoint body now c of (p, c') \<Rightarrow> Inr (ViaSocket p, c'))
      else Inl no_transport)"

subsection \<open>Everything that can happen to a client\<close>

text \<open>
  The client changes when its owner sets the socket, when a caller issues an action
  (every public wrapper is \<open>request\<close> with an endpoint and a body), when the runtime
  hands it a frame with an echo, and when one of its timeouts fires. \<open>DoRequest\<close>
  carries the \<open>readyState\<close> of the sockets at that moment. An error thrown to the
  caller leaves the client as it was.
\<close>

datatype client_op =
    DoSetWs "nat option"
  | DoRequest "nat \<Rightarrow> readyState" string string nat
  | DoResponse OB11Response
  | DoTimeout nat

fun client_step :: "NapCatApiClient \<Rightarrow> client_op \<Rightarrow> NapCatApiClient" where
  "client_step c (DoSetWs w) = setWs w c"
| "client_step c (DoRequest rs endpoint body now) =
     (case request rs endpoint body now c of Inl err \<Rightarrow> c | Inr res \<Rightarrow> snd res)"
| "client_step c (DoResponse payload) =
     (case handleWsResponse payload c of Inl err \<Rightarrow> c | Inr c' \<Rightarrow> c')"
| "client_step c (DoTimeout p) = on_timeout p c"

definition client_run :: "NapCatApiClient \<Rightarrow> client_op list \<Rightarrow> NapCatApiClient" where
  "client_run c ops = foldl client_step c ops"

section \<open>runtime.ts: the socket runtime\<close>

text \<open>
  A socket object of the \<open>ws\<close> library: its \<open>readyState\<close>, and whether the runtime's
  \<open>open\<close>/\<open>message\<close>/\<open>close\<close>/\<open>error\<close> handlers are attached to it
  (\<open>removeAllListeners\<close> detaches them).
\<close>

record socket =
  s_readyState :: readyState
  s_handlers :: bool

text \<open>
  The runtime object with the world it acts on. \<open>r_ws\<close> is the field \<open>this.ws\<close>, a
  reference into \<open>sockets\<close>; the client's \<open>ws\<close> may alias the same object.
  \<open>reconnectTimers\<close> are the armed \<open>setTimeout\<close> handles of \<open>scheduleReconnect\<close>
  (attempt number, and the whole number of ms the timer runs); \<open>scheduled\<close> logs every
  such handle ever armed;
  \<open>reconnects\<close> counts the invocations of \<open>reconnect()\<close>; \<open>errors\<close> logs the
  \<open>onError\<close> reports; \<open>starting\<close> counts the invocations of \<open>start()\<close> suspended at
  \<open>await getLoginInfo()\<close>; \<open>delivered\<close> logs the events handed to \<open>onMessage\<close>.
\<close>

record NapCatRuntime =
  account :: NapCatAccount
  apiClient :: NapCatApiClient
  r_ws :: "nat option"
  reconnectAttempts :: nat
  isClosing :: bool
  sockets :: "socket list"
  reconnectTimers :: "(nat \<times> int) list"
  scheduled :: "(nat \<times> int) list"
  reconnects :: nat
  errors :: "string list"
  starting :: nat
  delivered :: "OB11MessageEvent list"

definition maxReconnectAttempts :: nat where
  "maxReconnectAttempts = 10"

definition baseReconnectDelay :: rat where
  "baseReconnectDelay = 3000"

definition new_NapCatRuntime :: "NapCatAccount \<Rightarrow> NapCatRuntime" where
  "new_NapCatRuntime acct =
     \<lparr> account = acct,
       apiClient = new_NapCatApiClient acct,
       r_ws = None,
       reconnectAttempts = 0,
       isClosing = False,
       sockets = [],
       reconnectTimers = [],
       scheduled = [],
       reconnects = 0,
       errors = [],
       starting = 0,
       delivered = [] \<rparr>"

definition readyStates :: "NapCatRuntime \<Rightarrow> nat \<Rightarrow> readyState" where
  "readyStates r s = (if s < length (sockets r) then s_readyState (sockets r ! s) else CLOSED)"

definition onError :: "string \<Rightarrow> NapCatRuntime \<Rightarrow> NapCatRuntime" where
  "onError msg r = r\<lparr>errors := errors r @ [msg]\<rparr>"

text \<open>
  \<open>Math.min(this.baseReconnectDelay * Math.pow(1.5, this.reconnectAttempts - 1), 60000)\<close>,
  in ms. The doubles involved are dyadic rationals that the arithmetic represents
  exactly for the attempts the runtime can reach, so the value is computed in
  \<^typ>\<open>rat\<close>; the exponent is an integer.
\<close>

definition reconnect_delay :: "nat \<Rightarrow> rat" where
  "reconnect_delay attempts =
     min (baseReconnectDelay * (3 / 2) powi (int attempts - 1)) 60000"

text \<open>
  \<open>setTimeout(callback, delay)\<close> of Node: a delay outside 1 ... 2147483647 becomes 1,
  and the timer runs the whole number of ms of the delay (the fraction is cut off).
\<close>

definition setTimeout_ms :: "rat \<Rightarrow> int" where
  "setTimeout_ms delay = (if 1 \<le> delay \<and> delay \<le> 2147483647 then \<lfloor>delay\<rfloor> else 1)"

definition scheduleReconnect :: "NapCatRuntime \<Rightarrow> NapCatRuntime" where
  "scheduleReconnect r =
     (if isClosing r then r
      else if \<not> truthy (wsUrl (account r)) then r
      else if reconnectAttempts r \<ge> maxReconnectAttempts
           then onError ''Max reconnect attempts reached'' r
      else (let n = Suc (reconnectAttempts r); delay = reconnect_delay n in
            r\<lparr>reconnectAttempts := n,
              reconnectTimers := reconnectTimers r @ [(n, setTimeout_ms delay)],
              scheduled := scheduled r @ [(n, setTimeout_ms delay)]\<rparr>))"

definition getLoginInfo ::
  "(nat \<Rightarrow> readyState) \<Rightarrow> nat \<Rightarrow> NapCatApiClient \<Rightarrow> string + (transport \<times> NapCatApiClient)" where
  "getLoginInfo rs now c = request rs ''/get_login_info'' ''{}'' now c"

text \<open>
  \<open>start()\<close> after its login check. \<open>ctor\<close> is the error \<open>new WebSocket(url, options)\<close>
  throws, if it throws. The \<open>catch\<close> of \<open>start()\<close> reports and schedules a reconnect.
\<close>

definition start_connect :: "string option \<Rightarrow> NapCatRuntime \<Rightarrow> NapCatRuntime" where
  "start_connect ctor r =
     (if truthy (wsUrl (account r)) then
        (case ctor of
           None \<Rightarrow> r\<lparr>r_ws := Some (length (sockets r)),
                     sockets := sockets r @ [\<lparr>s_readyState = CONNECTING, s_handlers = True\<rparr>]\<rparr>
         | Some err \<Rightarrow> scheduleReconnect (onError err r))
      else if \<not> truthy (httpUrl (account r))
           then scheduleReconnect (onError ''Neither wsUrl nor httpUrl is configured'' r)
      else r)"

text \<open>
  \<open>start()\<close> up to its first suspension: with an HTTP endpoint in the account it issues
  \<open>getLoginInfo()\<close> and waits (the rest runs at \<open>login_settled\<close>); without one it runs
  to its end at once.
\<close>

definition start :: "nat \<Rightarrow> string option \<Rightarrow> NapCatRuntime \<Rightarrow> NapCatRuntime" where
  "start now ctor r =
     (if truthy (httpUrl (account r)) then
        (case getLoginInfo (readyStates r) now (apiClient r) of
           Inl err \<Rightarrow> r\<lparr>starting := Suc (starting r)\<rparr>
         | Inr res \<Rightarrow> r\<lparr>apiClient := snd res, starting := Suc (starting r)\<rparr>)
      else start_connect ctor r)"

definition login_settled :: "string option \<Rightarrow> NapCatRuntime \<Rightarrow> NapCatRuntime" where
  "login_settled ctor r =
     (if starting r = 0 then r else start_connect ctor (r\<lparr>starting := starting r - 1\<rparr>))"

text \<open>\<open>ws.close()\<close> and \<open>ws.terminate()\<close> as far as \<open>readyState\<close> shows them. (On a
  socket that is still connecting, \<open>terminate()\<close> after \<open>removeAllListeners()\<close> makes
  the library emit \<open>error\<close> with no listener; \<open>reconnect()\<close> meets such a socket only
  after a second \<open>start()\<close>, and that exception is not part of the model.)\<close>

definition close_socket :: "nat \<Rightarrow> socket list \<Rightarrow> socket list" where
  "close_socket s ss =
     (if s < length ss \<and> s_readyState (ss ! s) \<noteq> CLOSED
      then ss[s := (ss ! s)\<lparr>s_readyState := CLOSING\<rparr>] else ss)"

definition stop :: "NapCatRuntime \<Rightarrow> NapCatRuntime" where
  "stop r =
     (let r1 = r\<lparr>isClosing := True\<rparr>;
          r2 = (case r_ws r1 of
                  None \<Rightarrow> r1
                | Some s \<Rightarrow> r1\<lparr>sockets := close_socket s (sockets r1), r_ws := None\<rparr>)
      in r2\<lparr>reconnectAttempts := 0\<rparr>)"

definition reconnect :: "nat \<Rightarrow> string option \<Rightarrow> NapCatRuntime \<Rightarrow> NapCatRuntime" where
  "reconnect now ctor r =
     (let r1 = (case r_ws r of
                  None \<Rightarrow> r
                | Some s \<Rightarrow>
                    r\<lparr>sockets := close_socket s
                         (if s < length (sockets r)
                          then (sockets r)[s := (sockets r ! s)\<lparr>s_handlers := False\<rparr>]
                          else sockets r),
                      r_ws := None\<rparr>)
      in start now ctor (r1\<lparr>reconnects := Suc (reconnects r1)\<rparr>))"

definition handlePayload :: "inbound_frame \<Rightarrow> NapCatRuntime \<Rightarrow> string + NapCatRuntime" where
  "handlePayload payload r =
     (if truthy (echo (as_response payload)) then
        (case handleWsResponse (as_response payload) (apiClient r) of
           Inl err \<Rightarrow> Inl err
         | Inr c \<Rightarrow> Inr (r\<lparr>apiClient := c\<rparr>))
      else if post_type payload = Some ''message''
           then Inr (r\<lparr>delivered := delivered r @ [as_message payload]\<rparr>)
      else Inr r)"

subsection \<open>The handlers of \<open>setupWebSocketHandlers\<close>\<close>

text \<open>
  Each takes the socket the event is fired on. The \<open>ws\<close> library fires \<open>open\<close> on a
  connecting socket, \<open>message\<close> on a socket that is open or closing, and \<open>close\<close> once.
  A socket whose handlers were removed changes its state only.
\<close>

definition set_readyState :: "nat \<Rightarrow> readyState \<Rightarrow> NapCatRuntime \<Rightarrow> NapCatRuntime" where
  "set_readyState s st r = r\<lparr>sockets := (sockets r)[s := (sockets r ! s)\<lparr>s_readyState := st\<rparr>]\<rparr>"

definition on_open :: "nat \<Rightarrow> nat \<Rightarrow> NapCatRuntime \<Rightarrow> NapCatRuntime" where
  "on_open s now r =
     (if s < length (sockets r) \<and> s_readyState (sockets r ! s) = CONNECTING then
        (let r1 = set_readyState s OPEN r in
         if s_handlers (sockets r ! s) then
           (let r2 = r1\<lparr>reconnectAttempts := 0, apiClient := setWs (r_ws r1) (apiClient r1)\<rparr> in
            if \<not> truthy (httpUrl (account r2)) then
              (case getLoginInfo (readyStates r2) now (apiClient r2) of
                 Inl err \<Rightarrow> r2
               | Inr res \<Rightarrow> r2\<lparr>apiClient := snd res\<rparr>)
            else r2)
         else r1)
      else r)"

text \<open>\<open>data\<close> is \<open>None\<close> when \<open>JSON.parse\<close> throws; the handler's \<open>catch\<close> logs whatever
  is thrown and drops the frame.\<close>

definition on_message :: "nat \<Rightarrow> inbound_frame option \<Rightarrow> NapCatRuntime \<Rightarrow> NapCatRuntime" where
  "on_message s frame r =
     (if s < length (sockets r) \<and> s_handlers (sockets r ! s) \<and>
         (s_readyState (sockets r ! s) = OPEN \<or> s_readyState (sockets r ! s) = CLOSING) then
        (case frame of
           None \<Rightarrow> r
         | Some payload \<Rightarrow> (case handlePayload payload r of Inl err \<Rightarrow> r | Inr r' \<Rightarrow> r'))
      else r)"

definition on_close :: "nat \<Rightarrow> NapCatRuntime \<Rightarrow> NapCatRuntime" where
  "on_close s r =
     (if s < length (sockets r) \<and> s_readyState (sockets r ! s) \<noteq> CLOSED then
        (let r1 = set_readyState s CLOSED r in
         if s_handlers (sockets r ! s) then
           (let r2 = r1\<lparr>apiClient := setWs None (apiClient r1)\<rparr> in
            if \<not> isClosing r2 then scheduleReconnect r2 else r2)
         else r1)
      else r)"

definition on_error :: "nat \<Rightarrow> string \<Rightarrow> NapCatRuntime \<Rightarrow> NapCatRuntime" where
  "on_error s msg r =
     (if s < length (sockets r) \<and> s_handlers (sockets r ! s) then onError msg r else r)"

text \<open>The callback of the \<open>i\<close>-th armed reconnect timer.\<close>

definition on_reconnect_timer :: "nat \<Rightarrow> nat \<Rightarrow> string option \<Rightarrow> NapCatRuntime \<Rightarrow> NapCatRuntime" where
  "on_reconnect_timer i now ctor r =
     (if i < length (reconnectTimers r) then
        (let r1 = r\<lparr>reconnectTimers := take i (reconnectTimers r) @ drop (Suc i) (reconnectTimers r)\<rparr> in
         if \<not> isClosing r1 then reconnect now ctor r1 else r1)
      else r)"

text \<open>A caller (a reply delivery, \<open>sendText\<close>, ...) issues an action through the client.\<close>

definition api_call :: "string \<Rightarrow> string \<Rightarrow> nat \<Rightarrow> NapCatRuntime \<Rightarrow> NapCatRuntime" where
  "api_call endpoint body now r =
     (case request (readyStates r) endpoint body now (apiClient r) of
        Inl err \<Rightarrow> r
      | Inr res \<Rightarrow> r\<lparr>apiClient := snd res\<rparr>)"

subsection \<open>Everything that can happen to a runtime\<close>

text \<open>
  \<open>Start\<close>: the owner calls \<open>start()\<close>. \<open>LoginSettled\<close>: the login call a suspended
  \<open>start()\<close> waits for is settled, and \<open>start()\<close> goes on. \<open>Stop\<close>: the owner calls
  \<open>stop()\<close>. \<open>SockOpen\<close>, \<open>SockMessage\<close>, \<open>SockClose\<close>, \<open>SockError\<close>: the socket with
  that number fires the event. \<open>ReconnectTimer\<close>: an armed reconnect timer fires.
  \<open>ApiCall\<close>: a caller issues an action. \<open>RequestTimer\<close>: the timeout of a socket call
  fires. \<open>now\<close> is what \<open>Date.now()\<close> returns when the step issues a socket call. The
  console output and the \<open>onReady\<close> callback are left out: they change nothing.
\<close>

datatype event =
    Start nat "string option"
  | LoginSettled "string option"
  | Stop
  | SockOpen nat nat
  | SockMessage nat "inbound_frame option"
  | SockClose nat
  | SockError nat string
  | ReconnectTimer nat nat "string option"
  | ApiCall string string nat
  | RequestTimer nat

fun step :: "NapCatRuntime \<Rightarrow> event \<Rightarrow> NapCatRuntime" where
  "step r (Start now ctor) = start now ctor r"
| "step r (LoginSettled ctor) = login_settled ctor r"
| "step r Stop = stop r"
| "step r (SockOpen s now) = on_open s now r"
| "step r (SockMessage s frame) = on_message s frame r"
| "step r (SockClose s) = on_close s r"
| "step r (SockError s msg) = on_error s msg r"
| "step r (ReconnectTimer i now ctor) = on_reconnect_timer i now ctor r"
| "step r (ApiCall endpoint body now) = api_call endpoint body now r"
| "step r (RequestTimer p) = r\<lparr>apiClient := on_timeout p (apiClient r)\<rparr>"

definition run :: "NapCatRuntime \<Rightarrow> event list \<Rightarrow> NapCatRuntime" where
  "run r evs = foldl step r evs"

section \<open>channel.ts: inbound events and reply delivery\<close>

subsection \<open>\<open>onMessage\<close>: from the raw event to what is dispatched\<close>

text \<open>
  What \<open>onMessage\<close> has computed when it reaches the dispatcher: the text handed to the
  agent, the media reference, and the identity of the conversation.
\<close>

record inbound_context =
  messageText :: string
  mediaUrl :: "json option"
  isDirect :: bool
  peerId :: string
  channelId :: string

datatype inbound_result =
    IgnoredNonAdmin
  | IgnoredNotMentioned
  | DroppedEmpty
  | Dispatched inbound_context

text \<open>The local \<open>isMentioned\<close> of the group branch.\<close>

definition isMentioned :: "OB11MessageEvent \<Rightarrow> bool" where
  "isMentioned m =
     (case ev_message m of
        Segments segs \<Rightarrow>
          list_ex (\<lambda>seg. seg_type seg = ''at'' \<and>
                         String_json (map_of (seg_data seg) ''qq'') = String_num (self_id m)) segs
      | Plain s \<Rightarrow> sublist (''[CQ:at,qq='' @ String_num (self_id m) @ '']'') s)"

text \<open>\<open>a || b\<close> on two properties.\<close>

definition js_or :: "json option \<Rightarrow> json option \<Rightarrow> json option" where
  "js_or a b = (if truthy_json a then a else b)"

definition extract_text :: "message_body \<Rightarrow> string" where
  "extract_text body =
     (case body of
        Plain s \<Rightarrow> s
      | Segments segs \<Rightarrow>
          concat (map (\<lambda>seg. join_element (map_of (seg_data seg) ''text''))
                    (filter (\<lambda>seg. seg_type seg = ''text'') segs)))"

definition extract_media :: "message_body \<Rightarrow> json option" where
  "extract_media body =
     (case body of
        Plain s \<Rightarrow> None
      | Segments segs \<Rightarrow>
          (case find (\<lambda>seg. seg_type seg = ''image'') segs of
             None \<Rightarrow> None
           | Some imageSeg \<Rightarrow>
               js_or (map_of (seg_data imageSeg) ''url'') (map_of (seg_data imageSeg) ''file'')))"

definition channelId_of :: "OB11MessageEvent \<Rightarrow> string" where
  "channelId_of m =
     (if message_type m = ''private'' then ''private:'' @ String_num (user_id m)
      else ''group:'' @ template_num (group_id m))"

definition onMessage :: "NapCatAccount \<Rightarrow> OB11MessageEvent \<Rightarrow> inbound_result" where
  "onMessage acct m =
     (if adminUins acct \<noteq> None \<and> length (the (adminUins acct)) > 0 \<and>
         user_id m \<notin> set (the (adminUins acct))
      then IgnoredNonAdmin
      else if message_type m = ''group'' \<and> \<not> isMentioned m then IgnoredNotMentioned
      else
        (let media = extract_media (ev_message m);
             text0 = trim (extract_text (ev_message m));
             text1 = (if text0 = [] \<and> truthy_json media then ''[Image]'' else text0);
             text2 = (if truthy_json media
                      then text1 @ [CHR 0x0A] @ ''[MediaUrl: '' @ String_json media @ '']''
                      else text1)
         in if text2 = [] then DroppedEmpty
            else Dispatched
              \<lparr> messageText = text2,
                mediaUrl = media,
                isDirect = (message_type m = ''private''),
                peerId = (if message_type m = ''private'' then String_num (user_id m)
                          else template_num (group_id m)),
                channelId = channelId_of m \<rparr>))"

subsection \<open>\<open>deliver\<close>: one reply payload\<close>

text \<open>The payload of the dispatcher: \<open>text\<close>, and the media under one of four keys.\<close>

record reply_payload =
  p_text :: "string option"
  p_media :: "string list option"
  p_files :: "string list option"
  p_mediaUrls :: "string list option"
  p_mediaUrl :: "string option"

definition replyMedia_of :: "reply_payload \<Rightarrow> string list" where
  "replyMedia_of payload =
     (case p_media payload of
        Some xs \<Rightarrow> xs
      | None \<Rightarrow>
     (case p_files payload of
        Some xs \<Rightarrow> xs
      | None \<Rightarrow>
     (case p_mediaUrls payload of
        Some xs \<Rightarrow> xs
      | None \<Rightarrow> (if truthy (p_mediaUrl payload) then [the (p_mediaUrl payload)] else []))))"

text \<open>
  The file system as \<open>deliver\<close> sees it: \<open>existsSync\<close> is false for \<open>Missing\<close>;
  \<open>readFileSync(path).toString('base64')\<close> gives the text of \<open>Readable\<close> and throws for
  \<open>Unreadable\<close>.
\<close>

datatype file_state = Missing | Readable string | Unreadable

definition resolve_file :: "(string \<Rightarrow> file_state) \<Rightarrow> string \<Rightarrow> string" where
  "resolve_file fs mediaItem =
     (if prefix ''/'' mediaItem \<and> fs mediaItem \<noteq> Missing then
        (case fs mediaItem of
           Readable base64 \<Rightarrow> ''base64://'' @ base64
         | _ \<Rightarrow> (if \<not> prefix ''file://'' mediaItem then ''file://'' @ mediaItem else mediaItem))
      else if prefix ''/'' mediaItem \<and> \<not> prefix ''file://'' mediaItem then ''file://'' @ mediaItem
      else mediaItem)"

definition text_segment :: "string \<Rightarrow> OB11MessageSegment" where
  "text_segment t = \<lparr>seg_type = ''text'', seg_data = [(''text'', JString t)]\<rparr>"

definition image_segment :: "string \<Rightarrow> OB11MessageSegment" where
  "image_segment f = \<lparr>seg_type = ''image'', seg_data = [(''file'', JString f)]\<rparr>"

definition REPLY_DEDUP_WINDOW_MS :: int where
  "REPLY_DEDUP_WINDOW_MS = 5000"

text \<open>\<open>recentReplies\<close>: key to last text and timestamp.\<close>

type_synonym recent_replies = "string \<rightharpoonup> (string \<times> int)"

definition messageKey_of :: "OB11MessageEvent \<Rightarrow> string" where
  "messageKey_of m = channelId_of m @ '':'' @ String_num (message_id m)"

definition messageBody_of :: "(string \<Rightarrow> file_state) \<Rightarrow> string option \<Rightarrow> string list \<Rightarrow> message_out" where
  "messageBody_of fs replyText replyMedia =
     (if length replyMedia > 0
      then OutSegments ((if truthy replyText then [text_segment (the replyText)] else []) @
                        map (\<lambda>mediaItem. image_segment (resolve_file fs mediaItem)) replyMedia)
      else OutText replyText)"

definition send_params :: "OB11MessageEvent \<Rightarrow> message_out \<Rightarrow> OB11SendMessageParams" where
  "send_params m body =
     (if message_type m = ''private''
      then \<lparr>sp_message_type = ''private'', sp_user_id = Some (user_id m), sp_group_id = None,
            sp_message = body\<rparr>
      else \<lparr>sp_message_type = ''group'', sp_user_id = None, sp_group_id = group_id m,
            sp_message = body\<rparr>)"

text \<open>
  What one run of \<open>deliver\<close> does: returns before the send (nothing to send, or the
  reply is suppressed), or issues one \<open>client.sendMessage\<close>. \<open>send_error\<close> is the error
  the awaited send rejects with, if it rejects: then \<open>deliver\<close> throws before it
  records the reply. \<open>now\<close> is what \<open>Date.now()\<close> returns.
\<close>

datatype deliver_result =
    NothingToSend
  | Suppressed
  | Sent OB11SendMessageParams
  | SendFailed OB11SendMessageParams string

definition deliver ::
  "(string \<Rightarrow> file_state) \<Rightarrow> string option \<Rightarrow> int \<Rightarrow> OB11MessageEvent \<Rightarrow> reply_payload \<Rightarrow>
     recent_replies \<Rightarrow> deliver_result \<times> recent_replies" where
  "deliver fs send_error now m payload recentReplies =
     (let replyText = p_text payload;
          replyMedia = replyMedia_of payload
      in if \<not> truthy replyText \<and> length replyMedia = 0 then (NothingToSend, recentReplies)
         else
           (let messageKey = messageKey_of m;
                lastReply = recentReplies messageKey
            in if length replyMedia = 0 \<and> lastReply \<noteq> None \<and>
                  Some (fst (the lastReply)) = replyText \<and>
                  now - snd (the lastReply) < REPLY_DEDUP_WINDOW_MS
               then (Suppressed, recentReplies)
               else
                 (let params = send_params m (messageBody_of fs replyText replyMedia)
                  in case send_error of
                       Some err \<Rightarrow> (SendFailed params err, recentReplies)
                     | None \<Rightarrow>
                         (Sent params,
                          recentReplies(messageKey \<mapsto>
                            (if truthy replyText then the replyText else [], now))))))"

text \<open>Did this run issue a send action?\<close>

fun fired :: "deliver_result \<Rightarrow> bool" where
  "fired NothingToSend = False"
| "fired Suppressed = False"
| "fired (Sent params) = True"
| "fired (SendFailed params err) = True"

section \<open>Sample inputs and auxiliary predicates\<close>

definition sample_group_event :: OB11MessageEvent where
  "sample_group_event =
     \<lparr> time = 1700000000, self_id = 42, message_type = ''group'', message_id = 7,
       user_id = 1001, group_id = Some 555,
       ev_message = Segments
           [\<lparr>seg_type = ''text'', seg_data = [(''text'', JString ''hello '')]\<rparr>,
            \<lparr>seg_type = ''at'', seg_data = [(''qq'', JString ''42'')]\<rparr>,
            \<lparr>seg_type = ''text'', seg_data = [(''text'', JString '' world'')]\<rparr>],
       sender_nickname = ''alice'' \<rparr>"

definition sample_account :: NapCatAccount where
  "sample_account = \<lparr>wsUrl = Some ''ws://127.0.0.1:3001'', httpUrl = None, token = None, adminUins = None\<rparr>"

definition text_reply :: "string \<Rightarrow> reply_payload" where
  "text_reply t = \<lparr>p_text = Some t, p_media = None, p_files = None, p_mediaUrls = None, p_mediaUrl = None\<rparr>"

definition media_reply :: "string option \<Rightarrow> string list \<Rightarrow> reply_payload" where
  "media_reply t xs = \<lparr>p_text = t, p_media = Some xs, p_files = None, p_mediaUrls = None, p_mediaUrl = None\<rparr>"

text \<open>A socket runtime whose every connection closes before it opens: \<open>k\<close> failures,
  each followed by the reconnect timer.\<close>

definition failing_connections :: "nat \<Rightarrow> event list" where
  "failing_connections k =
     Start 0 None # concat (map (\<lambda>s. [SockClose s, ReconnectTimer 0 0 None]) [0..<k])"

text \<open>The attempt counter and every reconnect timer ever armed stay within the cap.\<close>

definition attempts_bounded :: "NapCatRuntime \<Rightarrow> bool" where
  "attempts_bounded r =
     (reconnectAttempts r \<le> 10 \<and>
      list_all (\<lambda>x. 1 \<le> fst x \<and> fst x \<le> 10 \<and> snd x = setTimeout_ms (reconnect_delay (fst x)))
        (scheduled r))"

text \<open>What holds between a stopped runtime and any later state of it.\<close>

definition quiet :: "NapCatRuntime \<Rightarrow> NapCatRuntime \<Rightarrow> bool" where
  "quiet r r' = (isClosing r' \<and> reconnects r' = reconnects r \<and> scheduled r' = scheduled r)"

text \<open>A runtime on a socket-only account whose login call is outstanding, and a response
  frame.\<close>

definition login_pending :: NapCatRuntime where
  "login_pending = run (new_NapCatRuntime sample_account) [Start 0 None, SockOpen 0 1000]"

definition ok_frame :: "string \<Rightarrow> string \<Rightarrow> inbound_frame" where
  "ok_frame e d =
     \<lparr> as_response = \<lparr>status = Some ''ok'', retcode = Some 0, data = d, message = None,
                       wording = None, echo = Some e\<rparr>,
       post_type = None, meta_event_type = None, sub_type = None,
       as_message = sample_group_event \<rparr>"

text \<open>How the listener of \<open>requestWs\<close> settles its promise from a response.\<close>

definition outcome_of :: "OB11Response \<Rightarrow> outcome" where
  "outcome_of r = (if is_failure r then Rejected (api_error_message r) else Resolved (data r))"

text \<open>
  The client's bookkeeping is consistent: every listener belongs to a promise already
  created and sits under a token made from an issue time and a counter value already
  used; tokens and promises of listeners are pairwise different; every armed timeout has
  its listener and the delay 10000; armed timeouts belong to different promises; a
  promise that was settled has no listener.
\<close>

definition client_inv :: "NapCatApiClient \<Rightarrow> bool" where
  "client_inv c =
     ((\<forall>l \<in> set (responseEmitter c).
         snd l < nextPromise c \<and> (\<exists>t s. fst l = make_echo t s \<and> s < wsSequence c)) \<and>
      distinct (map fst (responseEmitter c)) \<and>
      distinct (map snd (responseEmitter c)) \<and>
      (\<forall>t \<in> set (timeouts c).
         (fst (snd t), fst t) \<in> set (responseEmitter c) \<and> snd (snd (snd t)) = 10000) \<and>
      distinct (map fst (timeouts c)) \<and>
      (\<forall>x \<in> set (settled c). fst x < nextPromise c \<and> fst x \<notin> snd ` set (responseEmitter c)))"

text \<open>
  A socket call that is outstanding (its listener and its timeout are in place and its
  promise has not been settled), a socket call that is over (settled once, nothing of it
  left, its token used up), and an operation that is neither the call's own timeout nor
  a response carrying its token.
\<close>

definition pending_call :: "string \<Rightarrow> nat \<Rightarrow> string \<Rightarrow> NapCatApiClient \<Rightarrow> bool" where
  "pending_call e p action c =
     ((e, p) \<in> set (responseEmitter c) \<and> (p, e, action, 10000) \<in> set (timeouts c) \<and>
      filter (\<lambda>x. fst x = p) (settled c) = [])"

definition finished_call :: "string \<Rightarrow> nat \<Rightarrow> outcome \<Rightarrow> NapCatApiClient \<Rightarrow> bool" where
  "finished_call e p out c =
     (p < nextPromise c \<and> p \<notin> snd ` set (responseEmitter c) \<and> p \<notin> fst ` set (timeouts c) \<and>
      e \<notin> fst ` set (responseEmitter c) \<and> (\<exists>t s. e = make_echo t s \<and> s < wsSequence c) \<and>
      filter (\<lambda>x. fst x = p) (settled c) = [(p, out)])"

definition leaves_alone :: "string \<Rightarrow> nat \<Rightarrow> client_op \<Rightarrow> bool" where
  "leaves_alone e p op =
     (case op of
        DoTimeout q \<Rightarrow> q \<noteq> p
      | DoResponse r \<Rightarrow> echo r \<noteq> Some e
      | _ \<Rightarrow> True)"

text \<open>A client of a socket-only account with its socket set.\<close>

definition socket_client :: NapCatApiClient where
  "socket_client = client_run (new_NapCatApiClient sample_account) [DoSetWs (Some 0)]"

section \<open>Facts about the model\<close>

subsection \<open>Reply delivery\<close>

lemma deliver_fires:
  assumes "truthy (p_text p) \<or> replyMedia_of p \<noteq> []"
    and "recent (messageKey_of m) = None"
  shows "fired (fst (deliver fs e t m p recent))"
  using assms by (auto simp: deliver_def Let_def split: option.splits)

subsection \<open>Reconnect attempts stay bounded\<close>

lemma ab_onError: "attempts_bounded (onError msg r) = attempts_bounded r"
  by (simp add: attempts_bounded_def onError_def)

lemma ab_scheduleReconnect: "attempts_bounded r \<Longrightarrow> attempts_bounded (scheduleReconnect r)"
  by (auto simp: attempts_bounded_def scheduleReconnect_def onError_def Let_def maxReconnectAttempts_def)

lemma ab_start_connect: "attempts_bounded r \<Longrightarrow> attempts_bounded (start_connect ctor r)"
  unfolding start_connect_def
  by (auto simp: ab_onError intro!: ab_scheduleReconnect split: option.splits)
     (simp_all add: attempts_bounded_def)

lemma ab_start: "attempts_bounded r \<Longrightarrow> attempts_bounded (start now ctor r)"
  unfolding start_def
  by (auto simp: ab_start_connect split: sum.splits) (simp_all add: attempts_bounded_def)

lemma ab_login_settled: "attempts_bounded r \<Longrightarrow> attempts_bounded (login_settled ctor r)"
  unfolding login_settled_def
  by (auto intro!: ab_start_connect) (simp_all add: attempts_bounded_def)

lemma ab_stop: "attempts_bounded r \<Longrightarrow> attempts_bounded (stop r)"
  by (auto simp: attempts_bounded_def stop_def Let_def split: option.splits)

lemma ab_reconnect: "attempts_bounded r \<Longrightarrow> attempts_bounded (reconnect now ctor r)"
  unfolding reconnect_def Let_def
  by (rule ab_start) (auto simp: attempts_bounded_def split: option.splits)

lemma ab_on_open: "attempts_bounded r \<Longrightarrow> attempts_bounded (on_open s now r)"
  by (auto simp: attempts_bounded_def on_open_def set_readyState_def Let_def split: sum.splits)

lemma ab_on_message: "attempts_bounded r \<Longrightarrow> attempts_bounded (on_message s frame r)"
  by (auto simp: attempts_bounded_def on_message_def handlePayload_def split: option.splits sum.splits if_splits)

lemma ab_on_close: "attempts_bounded r \<Longrightarrow> attempts_bounded (on_close s r)"
  unfolding on_close_def Let_def
  by (auto intro!: ab_scheduleReconnect) (simp_all add: attempts_bounded_def set_readyState_def)

lemma ab_on_error: "attempts_bounded r \<Longrightarrow> attempts_bounded (on_error s msg r)"
  by (simp add: on_error_def ab_onError)

lemma ab_on_reconnect_timer: "attempts_bounded r \<Longrightarrow> attempts_bounded (on_reconnect_timer i now ctor r)"
  unfolding on_reconnect_timer_def Let_def
  by (auto intro!: ab_reconnect) (simp_all add: attempts_bounded_def)

lemma ab_api_call: "attempts_bounded r \<Longrightarrow> attempts_bounded (api_call endpoint body now r)"
  by (auto simp: attempts_bounded_def api_call_def split: sum.splits)

lemma ab_step: "attempts_bounded r \<Longrightarrow> attempts_bounded (step r e)"
  by (cases e)
     (simp_all add: ab_start ab_login_settled ab_stop ab_on_open ab_on_message ab_on_close
        ab_on_error ab_on_reconnect_timer ab_api_call, simp add: attempts_bounded_def)

lemma ab_run: "attempts_bounded r \<Longrightarrow> attempts_bounded (run r evs)"
  unfolding run_def by (induction evs arbitrary: r) (simp_all add: ab_step)

lemma ab_new: "attempts_bounded (new_NapCatRuntime acct)"
  by (simp add: attempts_bounded_def new_NapCatRuntime_def)

lemma delay_values:
  "reconnect_delay 1 = 3000" "reconnect_delay 2 = 4500" "reconnect_delay 3 = 6750"
  "reconnect_delay 4 = 10125" "reconnect_delay 5 = 30375 / 2"
  by (simp_all add: reconnect_delay_def baseReconnectDelay_def power_int_def eval_nat_numeral)

lemma timer_values:
  "setTimeout_ms (reconnect_delay 1) = 3000" "setTimeout_ms (reconnect_delay 2) = 4500"
  "setTimeout_ms (reconnect_delay 3) = 6750" "setTimeout_ms (reconnect_delay 4) = 10125"
  "setTimeout_ms (reconnect_delay 5) = 15187"
  by code_simp+

lemma timer_capped: "setTimeout_ms (reconnect_delay n) \<le> 60000"
proof -
  have "reconnect_delay n \<le> 60000" by (simp add: reconnect_delay_def)
  then have "\<lfloor>reconnect_delay n\<rfloor> \<le> 60000" by (simp add: floor_le_iff)
  then show ?thesis by (simp add: setTimeout_ms_def)
qed


lemma ten_failures:
  "scheduled (run (new_NapCatRuntime sample_account) (failing_connections 10 @ [SockClose 10])) =
     [(1, 3000), (2, 4500), (3, 6750), (4, 10125), (5, 15187), (6, 22781),
      (7, 34171), (8, 51257), (9, 60000), (10, 60000)]"
  by code_simp

lemma ten_failures_errors:
  "errors (run (new_NapCatRuntime sample_account) (failing_connections 10 @ [SockClose 10])) =
     [''Max reconnect attempts reached'']"
  by code_simp

lemma ten_failures_state:
  "reconnectAttempts (run (new_NapCatRuntime sample_account) (failing_connections 10)) = 10 \<and>
   \<not> isClosing (run (new_NapCatRuntime sample_account) (failing_connections 10)) \<and>
   reconnectTimers (run (new_NapCatRuntime sample_account) (failing_connections 10)) = [] \<and>
   truthy (wsUrl (account (run (new_NapCatRuntime sample_account) (failing_connections 10))))"
  by code_simp

subsection \<open>After \<open>stop()\<close>\<close>

lemma closing_scheduleReconnect: "isClosing r \<Longrightarrow> scheduleReconnect r = r"
  by (simp add: scheduleReconnect_def)

lemma quiet_start_connect: "isClosing r \<Longrightarrow> quiet r (start_connect ctor r)"
  by (auto simp: quiet_def start_connect_def closing_scheduleReconnect onError_def split: option.splits)

lemma quiet_start: "isClosing r \<Longrightarrow> quiet r (start now ctor r)"
  using quiet_start_connect [of r ctor]
  by (auto simp: quiet_def start_def split: sum.splits)

lemma quiet_login_settled: "isClosing r \<Longrightarrow> quiet r (login_settled ctor r)"
  using quiet_start_connect [of "r\<lparr>starting := starting r - 1\<rparr>" ctor]
  by (auto simp: quiet_def login_settled_def)

lemma quiet_stop: "quiet r (stop r)"
  by (auto simp: quiet_def stop_def Let_def split: option.splits)

lemma quiet_on_open: "isClosing r \<Longrightarrow> quiet r (on_open s now r)"
  by (auto simp: quiet_def on_open_def set_readyState_def Let_def split: sum.splits)

lemma quiet_on_message: "isClosing r \<Longrightarrow> quiet r (on_message s frame r)"
  by (auto simp: quiet_def on_message_def handlePayload_def split: option.splits sum.splits if_splits)

lemma quiet_on_close: "isClosing r \<Longrightarrow> quiet r (on_close s r)"
  by (auto simp: quiet_def on_close_def set_readyState_def Let_def)

lemma quiet_on_error: "isClosing r \<Longrightarrow> quiet r (on_error s msg r)"
  by (auto simp: quiet_def on_error_def onError_def)

lemma quiet_on_reconnect_timer: "isClosing r \<Longrightarrow> quiet r (on_reconnect_timer i now ctor r)"
  by (auto simp: quiet_def on_reconnect_timer_def Let_def)

lemma quiet_api_call: "isClosing r \<Longrightarrow> quiet r (api_call endpoint body now r)"
  by (auto simp: quiet_def api_call_def split: sum.splits)

lemma quiet_step: "isClosing r \<Longrightarrow> quiet r (step r e)"
proof (cases e)
  case Stop
  then show ?thesis using quiet_stop by simp
next
  case (RequestTimer p)
  assume "isClosing r"
  then show ?thesis using RequestTimer by (simp add: quiet_def)
qed (simp_all add: quiet_start quiet_login_settled quiet_on_open quiet_on_message quiet_on_close
      quiet_on_error quiet_on_reconnect_timer quiet_api_call)

lemma quiet_run: "isClosing r \<Longrightarrow> quiet r (run r evs)"
proof (induction evs arbitrary: r)
  case Nil
  then show ?case by (simp add: run_def quiet_def)
next
  case (Cons e evs)
  have q: "quiet r (step r e)" using Cons.prems by (rule quiet_step)
  then have "isClosing (step r e)" by (simp add: quiet_def)
  then have "quiet (step r e) (run (step r e) evs)" by (rule Cons.IH)
  with q show ?case by (simp add: run_def quiet_def)
qed

lemma stop_twice: "stop (stop r) = stop r"
  by (cases "r_ws r") (simp_all add: stop_def Let_def)

lemma stop_client: "apiClient (stop r) = apiClient r"
  by (simp add: stop_def Let_def split: option.splits)

text \<open>
  An invocation of \<open>start()\<close> that is suspended at its login check when \<open>stop()\<close> runs
  is not cancelled: when it goes on, it opens a socket.
\<close>

lemma suspended_start_connects_after_stop:
  assumes "starting r > 0" and "truthy (wsUrl (account r))"
  shows "r_ws (login_settled None (stop r)) = Some (length (sockets r)) \<and>
         length (sockets (login_settled None (stop r))) = Suc (length (sockets r))"
  using assms
  by (cases "r_ws r") (simp_all add: login_settled_def start_connect_def stop_def close_socket_def Let_def)

subsection \<open>Concrete runs\<close>

lemma echo_1000: "make_echo 1000 0 = ''api_1000_0''"
  by (simp add: make_echo_def string_of_nat.simps digit_char_def)

lemma login_pending_eq:
  "login_pending =
     \<lparr> account = sample_account,
       apiClient = \<lparr> c_httpUrl = None, c_token = None, ws = Some 0,
                     responseEmitter = [(''api_1000_0'', 0)],
                     timeouts = [(0, ''api_1000_0'', ''get_login_info'', 10000)],
                     wsSequence = 1, nextPromise = 1, settled = [],
                     sent = [(0, \<lparr>f_action = ''get_login_info'', f_params = ''{}'', f_echo = ''api_1000_0''\<rparr>)] \<rparr>,
       r_ws = Some 0, reconnectAttempts = 0, isClosing = False,
       sockets = [\<lparr>s_readyState = OPEN, s_handlers = True\<rparr>],
       reconnectTimers = [], scheduled = [], reconnects = 0, errors = [], starting = 0,
       delivered = [] \<rparr>"
  by (simp add: login_pending_def run_def start_def start_connect_def on_open_def new_NapCatRuntime_def
      new_NapCatApiClient_def sample_account_def truthy_def set_readyState_def setWs_def getLoginInfo_def
      request_def requestWs_def readyStates_def Let_def echo_1000 strip_leading_slash_def)


lemmas eval_client = on_timeout_def settle_def timeout_message_def handleWsResponse_def emit_def
  on_response_def clearTimeout_def is_failure_def truthy_def setWs_def Let_def

subsection \<open>Decimal strings\<close>

lemma digit_char_in: "d < 10 \<Longrightarrow> digit_char d \<in> set ''0123456789''"
  unfolding digit_char_def by (rule nth_mem) simp

lemma digit_char_inj: "a < 10 \<Longrightarrow> b < 10 \<Longrightarrow> digit_char a = digit_char b \<Longrightarrow> a = b"
  unfolding digit_char_def
  by (subst (asm) nth_eq_iff_index_eq) simp_all

lemma string_of_nat_nonempty: "string_of_nat n \<noteq> []"
  by (subst string_of_nat.simps) simp

lemma string_of_nat_digits: "set (string_of_nat n) \<subseteq> set ''0123456789''"
proof (induction n rule: string_of_nat.induct)
  case (1 n)
  show ?case
  proof (cases "n < 10")
    case True
    then show ?thesis
      using digit_char_in [of n] by (subst string_of_nat.simps) simp
  next
    case False
    have "n mod 10 < 10" by simp
    then have "digit_char (n mod 10) \<in> set ''0123456789''" by (rule digit_char_in)
    then show ?thesis
      using False 1 by (subst string_of_nat.simps) simp
  qed
qed

lemma string_of_nat_inj: "string_of_nat m = string_of_nat n \<Longrightarrow> m = n"
proof (induction m arbitrary: n rule: string_of_nat.induct)
  case (1 m)
  show ?case
  proof (cases "m < 10")
    case m: True
    show ?thesis
    proof (cases "n < 10")
      case True
      then show ?thesis
        using m 1(2) digit_char_inj [of m n]
        by (simp add: string_of_nat.simps [of m] string_of_nat.simps [of n])
    next
      case False
      then show ?thesis
        using m 1(2) string_of_nat_nonempty [of "n div 10"]
        by (simp add: string_of_nat.simps [of m] string_of_nat.simps [of n])
    qed
  next
    case m: False
    show ?thesis
    proof (cases "n < 10")
      case True
      then show ?thesis
        using m 1(2) string_of_nat_nonempty [of "m div 10"]
        by (simp add: string_of_nat.simps [of m] string_of_nat.simps [of n])
    next
      case False
      then have eq: "string_of_nat (m div 10) = string_of_nat (n div 10)"
        and dg: "digit_char (m mod 10) = digit_char (n mod 10)"
        using m 1(2) by (simp_all add: string_of_nat.simps [of m] string_of_nat.simps [of n])
      have "m div 10 = n div 10" using 1(1) [OF m eq] .
      moreover have "m mod 10 = n mod 10" using dg by (intro digit_char_inj) simp_all
      ultimately show ?thesis by (metis div_mult_mod_eq)
    qed
  qed
qed

lemma underscore_not_digit: "CHR ''_'' \<notin> set (string_of_nat n)"
  using string_of_nat_digits [of n] by auto

lemma make_echo_inj: "make_echo t s = make_echo t' s' \<Longrightarrow> t = t' \<and> s = s'"
proof -
  assume "make_echo t s = make_echo t' s'"
  then have "string_of_nat t @ CHR ''_'' # string_of_nat s = string_of_nat t' @ CHR ''_'' # string_of_nat s'"
    by (simp add: make_echo_def)
  then have "string_of_nat t = string_of_nat t' \<and> string_of_nat s = string_of_nat s'"
    using underscore_not_digit by (subst (asm) append_Cons_eq_iff) simp_all
  then show ?thesis by (simp add: string_of_nat_inj)
qed

subsection \<open>What an emitted response does\<close>

lemma fold_on_response:
  "settled (fold (\<lambda>l. on_response r (snd l)) ls c) = settled c @ map (\<lambda>l. (snd l, outcome_of r)) ls"
  "timeouts (fold (\<lambda>l. on_response r (snd l)) ls c) = filter (\<lambda>t. fst t \<notin> snd ` set ls) (timeouts c)"
  "responseEmitter (fold (\<lambda>l. on_response r (snd l)) ls c) = responseEmitter c"
  "nextPromise (fold (\<lambda>l. on_response r (snd l)) ls c) = nextPromise c"
  "wsSequence (fold (\<lambda>l. on_response r (snd l)) ls c) = wsSequence c"
  "ws (fold (\<lambda>l. on_response r (snd l)) ls c) = ws c"
  "sent (fold (\<lambda>l. on_response r (snd l)) ls c) = sent c"
  "c_httpUrl (fold (\<lambda>l. on_response r (snd l)) ls c) = c_httpUrl c"
  by (induction ls arbitrary: c;
      simp add: on_response_def settle_def clearTimeout_def outcome_of_def; metis)+


subsection \<open>The client's bookkeeping stays consistent\<close>

lemma same_echo_same_promise:
  "distinct (map fst ls) \<Longrightarrow> (e, p) \<in> set ls \<Longrightarrow> (e, q) \<in> set ls \<Longrightarrow> p = q"
  by (rule eq_key_imp_eq_value)

lemma same_promise_same_echo:
  "distinct (map snd ls) \<Longrightarrow> (e, p) \<in> set ls \<Longrightarrow> (f, p) \<in> set ls \<Longrightarrow> e = f"
proof (induction ls)
  case Nil
  then show ?case by simp
next
  case (Cons l ls)
  then show ?case by (auto simp: image_iff)
qed

lemma inv_new: "client_inv (new_NapCatApiClient config)"
  by (simp add: client_inv_def new_NapCatApiClient_def)

lemma inv_setWs: "client_inv c \<Longrightarrow> client_inv (setWs w c)"
  by (simp add: client_inv_def setWs_def)

lemma inv_requestWs:
  assumes "client_inv c"
  shows "client_inv (snd (requestWs endpoint params now c))"
proof (cases "ws c")
  case None
  then show ?thesis
    using assms
    by (auto simp: client_inv_def requestWs_def settle_def Let_def less_Suc_eq)
next
  case (Some sock)
  let ?e = "make_echo now (wsSequence c)"
  let ?p = "nextPromise c"
  have fresh_e: "?e \<notin> fst ` set (responseEmitter c)"
  proof
    assume "?e \<in> fst ` set (responseEmitter c)"
    then obtain l where l: "l \<in> set (responseEmitter c)" "fst l = ?e" by auto
    have "\<exists>t s. fst l = make_echo t s \<and> s < wsSequence c"
      using assms l(1) by (simp add: client_inv_def)
    then obtain t s where "fst l = make_echo t s" "s < wsSequence c"
      by blast
    then show False using l(2) make_echo_inj [of t s now "wsSequence c"] by simp
  qed
  have fresh_p: "?p \<notin> snd ` set (responseEmitter c)"
    using assms by (auto simp: client_inv_def)
  have fresh_t: "?p \<notin> fst ` set (timeouts c)"
  proof
    assume "?p \<in> fst ` set (timeouts c)"
    then obtain t where "t \<in> set (timeouts c)" "fst t = ?p" by auto
    then have "(fst (snd t), ?p) \<in> set (responseEmitter c)"
      using assms by (auto simp: client_inv_def)
    then show False using fresh_p by force
  qed
  have 1: "\<forall>l \<in> set (responseEmitter c @ [(?e, ?p)]).
         snd l < Suc ?p \<and> (\<exists>t s. fst l = make_echo t s \<and> s < Suc (wsSequence c))"
  proof
    fix l assume "l \<in> set (responseEmitter c @ [(?e, ?p)])"
    then consider "l \<in> set (responseEmitter c)" | "l = (?e, ?p)" by auto
    then show "snd l < Suc ?p \<and> (\<exists>t s. fst l = make_echo t s \<and> s < Suc (wsSequence c))"
    proof cases
      case 1
      then have "snd l < ?p" and "\<exists>t s. fst l = make_echo t s \<and> s < wsSequence c"
        using assms by (simp_all add: client_inv_def)
      then show ?thesis using less_Suc_eq by auto
    next
      case 2
      then show ?thesis by auto
    qed
  qed
  have 6: "\<forall>x \<in> set (settled c). fst x < Suc ?p \<and> fst x \<notin> snd ` set (responseEmitter c @ [(?e, ?p)])"
    using assms by (auto simp: client_inv_def less_Suc_eq)
  show ?thesis
    using Some assms fresh_e fresh_p fresh_t 1 6
    by (simp add: client_inv_def requestWs_def Let_def)
qed

lemma inv_request:
  assumes "client_inv c" and "request rs endpoint body now c = Inr res"
  shows "client_inv (snd res)"
  using assms inv_requestWs [OF assms(1), of endpoint body now]
  by (auto simp: request_def split: if_splits prod.splits)

lemma emit_fields:
  assumes "emit name r c = Inr c'"
  shows "responseEmitter c' = filter (\<lambda>l. fst l \<noteq> name) (responseEmitter c)"
    and "timeouts c' =
           filter (\<lambda>t. fst t \<notin> snd ` set (filter (\<lambda>l. fst l = name) (responseEmitter c))) (timeouts c)"
    and "settled c' =
           settled c @ map (\<lambda>l. (snd l, outcome_of r)) (filter (\<lambda>l. fst l = name) (responseEmitter c))"
    and "nextPromise c' = nextPromise c" and "wsSequence c' = wsSequence c"
    and "ws c' = ws c" and "sent c' = sent c" and "c_httpUrl c' = c_httpUrl c"
  using assms by (auto simp: emit_def Let_def fold_on_response split: if_splits)

lemma inv_emit:
  assumes inv: "client_inv c" and em: "emit name r c = Inr c'"
  shows "client_inv c'"
proof -
  note f = emit_fields [OF em]
  let ?L = "responseEmitter c"
  have d1: "distinct (map fst ?L)" and d2: "distinct (map snd ?L)"
    using inv by (simp_all add: client_inv_def)
  have a: "\<forall>l \<in> set (responseEmitter c').
         snd l < nextPromise c' \<and> (\<exists>t s. fst l = make_echo t s \<and> s < wsSequence c')"
    using inv by (simp add: f client_inv_def)
  have b: "distinct (map fst (responseEmitter c'))" "distinct (map snd (responseEmitter c'))"
    using d1 d2 by (simp_all add: f distinct_map_filter)
  have c: "\<forall>t \<in> set (timeouts c').
         (fst (snd t), fst t) \<in> set (responseEmitter c') \<and> snd (snd (snd t)) = 10000"
  proof
    fix t assume "t \<in> set (timeouts c')"
    then have t: "t \<in> set (timeouts c)"
      and n: "fst t \<notin> snd ` set (filter (\<lambda>l. fst l = name) ?L)"
      by (simp_all add: f)
    have l: "(fst (snd t), fst t) \<in> set ?L" and "snd (snd (snd t)) = 10000"
      using inv t by (auto simp: client_inv_def)
    moreover have "fst (snd t) \<noteq> name"
      using n l by force
    ultimately show "(fst (snd t), fst t) \<in> set (responseEmitter c') \<and> snd (snd (snd t)) = 10000"
      by (simp add: f)
  qed
  have d: "distinct (map fst (timeouts c'))"
    using inv by (simp add: f client_inv_def distinct_map_filter)
  have e: "\<forall>x \<in> set (settled c'). fst x < nextPromise c' \<and> fst x \<notin> snd ` set (responseEmitter c')"
  proof
    fix x assume "x \<in> set (settled c')"
    then consider "x \<in> set (settled c)"
      | l where "l \<in> set ?L" "fst l = name" "fst x = snd l"
      by (auto simp: f)
    then show "fst x < nextPromise c' \<and> fst x \<notin> snd ` set (responseEmitter c')"
    proof cases
      case 1
      then show ?thesis using inv by (auto simp: f client_inv_def)
    next
      case 2
      then have in_L: "(name, fst x) \<in> set ?L" by (metis prod.collapse)
      have "fst x < nextPromise c" using inv 2 by (auto simp: client_inv_def)
      moreover have "fst x \<notin> snd ` set (filter (\<lambda>l. fst l \<noteq> name) ?L)"
      proof
        assume "fst x \<in> snd ` set (filter (\<lambda>l. fst l \<noteq> name) ?L)"
        then obtain l' where l': "l' \<in> set ?L" "fst l' \<noteq> name" "snd l' = fst x" by auto
        then have "(fst l', fst x) \<in> set ?L" by (metis prod.collapse)
        then show False using same_promise_same_echo [OF d2 in_L] l'(2) by blast
      qed
      ultimately show ?thesis by (simp add: f)
    qed
  qed
  show ?thesis
    unfolding client_inv_def using a b c d e by blast
qed

lemma inv_handleWsResponse:
  "client_inv c \<Longrightarrow> handleWsResponse payload c = Inr c' \<Longrightarrow> client_inv c'"
  by (auto simp: handleWsResponse_def inv_emit split: if_splits)


lemma on_timeout_idle:
  "p \<notin> fst ` set (timeouts c) \<Longrightarrow> on_timeout p c = c"
proof -
  assume "p \<notin> fst ` set (timeouts c)"
  then have "filter (\<lambda>t. fst t = p) (timeouts c) = []"
    by (auto simp: filter_empty_conv)
  then show ?thesis by (simp add: on_timeout_def)
qed

lemma on_timeout_fields:
  assumes "filter (\<lambda>t. fst t = p) (timeouts c) = t # ts"
  shows "responseEmitter (on_timeout p c) = filter (\<lambda>l. fst l \<noteq> fst (snd t)) (responseEmitter c)"
    and "timeouts (on_timeout p c) = filter (\<lambda>t. fst t \<noteq> p) (timeouts c)"
    and "settled (on_timeout p c) = settled c @ [(p, Rejected (timeout_message (fst (snd (snd t)))))]"
    and "nextPromise (on_timeout p c) = nextPromise c" and "wsSequence (on_timeout p c) = wsSequence c"
    and "ws (on_timeout p c) = ws c" and "sent (on_timeout p c) = sent c"
    and "c_httpUrl (on_timeout p c) = c_httpUrl c"
  using assms by (simp_all add: on_timeout_def settle_def Let_def)

lemma armed_timer:
  assumes "filter (\<lambda>t. fst t = p) (timeouts c) = t # ts"
  shows "t \<in> set (timeouts c)" and "fst t = p"
proof -
  have "t \<in> set (filter (\<lambda>t. fst t = p) (timeouts c))" using assms by simp
  then show "t \<in> set (timeouts c)" and "fst t = p" by simp_all
qed

lemma inv_on_timeout:
  assumes inv: "client_inv c"
  shows "client_inv (on_timeout p c)"
proof (cases "filter (\<lambda>t. fst t = p) (timeouts c)")
  case Nil
  then show ?thesis using inv by (simp add: on_timeout_def)
next
  case (Cons t ts)
  note f = on_timeout_fields [OF Cons]
  let ?L = "responseEmitter c"
  let ?e = "fst (snd t)"
  have t: "t \<in> set (timeouts c)" "fst t = p" using armed_timer [OF Cons] by simp_all
  have d1: "distinct (map fst ?L)" and d2: "distinct (map snd ?L)"
    using inv by (simp_all add: client_inv_def)
  have in_L: "(?e, p) \<in> set ?L" using inv t by (auto simp: client_inv_def)
  have a: "\<forall>l \<in> set (responseEmitter (on_timeout p c)).
         snd l < nextPromise (on_timeout p c) \<and>
         (\<exists>t s. fst l = make_echo t s \<and> s < wsSequence (on_timeout p c))"
    using inv by (simp add: f client_inv_def)
  have b: "distinct (map fst (responseEmitter (on_timeout p c)))"
    "distinct (map snd (responseEmitter (on_timeout p c)))"
    using d1 d2 by (simp_all add: f distinct_map_filter)
  have c: "\<forall>t' \<in> set (timeouts (on_timeout p c)).
         (fst (snd t'), fst t') \<in> set (responseEmitter (on_timeout p c)) \<and> snd (snd (snd t')) = 10000"
  proof
    fix t' assume "t' \<in> set (timeouts (on_timeout p c))"
    then have t': "t' \<in> set (timeouts c)" "fst t' \<noteq> p" by (simp_all add: f)
    have l: "(fst (snd t'), fst t') \<in> set ?L" and ten: "snd (snd (snd t')) = 10000"
      using inv t'(1) by (auto simp: client_inv_def)
    have "fst (snd t') \<noteq> ?e"
    proof
      assume "fst (snd t') = ?e"
      then have "(?e, fst t') \<in> set ?L" using l by simp
      then show False using same_echo_same_promise [OF d1 in_L] t'(2) by blast
    qed
    then show "(fst (snd t'), fst t') \<in> set (responseEmitter (on_timeout p c)) \<and>
        snd (snd (snd t')) = 10000"
      using l ten by (simp add: f)
  qed
  have d: "distinct (map fst (timeouts (on_timeout p c)))"
    using inv by (simp add: f client_inv_def distinct_map_filter)
  have p_lt: "p < nextPromise c" using inv in_L by (auto simp: client_inv_def)
  have p_gone: "p \<notin> snd ` set (filter (\<lambda>l. fst l \<noteq> ?e) ?L)"
  proof
    assume "p \<in> snd ` set (filter (\<lambda>l. fst l \<noteq> ?e) ?L)"
    then obtain l' where l': "l' \<in> set ?L" "fst l' \<noteq> ?e" "snd l' = p" by auto
    then have "(fst l', p) \<in> set ?L" by (metis prod.collapse)
    then have "?e = fst l'" by (rule same_promise_same_echo [OF d2 in_L])
    then show False using l'(2) by simp
  qed
  have e: "\<forall>x \<in> set (settled (on_timeout p c)).
         fst x < nextPromise (on_timeout p c) \<and> fst x \<notin> snd ` set (responseEmitter (on_timeout p c))"
    using inv p_lt p_gone by (auto simp: f client_inv_def)
  show ?thesis
    unfolding client_inv_def using a b c d e by blast
qed

lemma inv_client_step:
  assumes "client_inv c"
  shows "client_inv (client_step c op)"
proof (cases op)
  case (DoSetWs w)
  then show ?thesis using assms by (simp add: inv_setWs)
next
  case (DoRequest rs endpoint body now)
  show ?thesis
  proof (cases "request rs endpoint body now c")
    case (Inl err)
    then show ?thesis using assms DoRequest by simp
  next
    case (Inr res)
    then show ?thesis using inv_request [OF assms Inr] DoRequest by simp
  qed
next
  case (DoResponse payload)
  show ?thesis
  proof (cases "handleWsResponse payload c")
    case (Inl err)
    then show ?thesis using assms DoResponse by simp
  next
    case (Inr c')
    then show ?thesis using inv_handleWsResponse [OF assms Inr] DoResponse by simp
  qed
next
  case (DoTimeout p)
  then show ?thesis using assms by (simp add: inv_on_timeout)
qed

lemma inv_client_run: "client_inv c \<Longrightarrow> client_inv (client_run c ops)"
  unfolding client_run_def by (induction ops arbitrary: c) (simp_all add: inv_client_step)

lemma unknown_token_ignored:
  assumes "echo payload \<notin> Some ` fst ` set (responseEmitter c)"
  shows "client_step c (DoResponse payload) = c"
proof (cases "truthy (echo payload)")
  case False
  then show ?thesis by (simp add: handleWsResponse_def)
next
  case True
  then obtain e where e: "echo payload = Some e" by (auto simp: truthy_def split: option.splits)
  then have "e \<notin> fst ` set (responseEmitter c)" using assms by auto
  then have none: "filter (\<lambda>l. fst l = e) (responseEmitter c) = []"
    and all: "filter (\<lambda>l. fst l \<noteq> e) (responseEmitter c) = responseEmitter c"
    by (auto simp: filter_empty_conv filter_id_conv)
  show ?thesis
    using True e none all by (simp add: handleWsResponse_def emit_def)
qed

subsection \<open>The life of one socket call\<close>

lemma request_socket:
  assumes "request rs endpoint body now c = Inr (ViaSocket p, c1)"
  shows "p = nextPromise c" and "c1 = snd (requestWs endpoint body now c)" and "ws c \<noteq> None"
  using assms by (auto simp: request_def requestWs_def Let_def split: if_splits option.splits)

lemma requestWs_fields:
  assumes "ws c = Some sock"
  shows "responseEmitter (snd (requestWs endpoint params now c)) =
           responseEmitter c @ [(make_echo now (wsSequence c), nextPromise c)]"
    and "timeouts (snd (requestWs endpoint params now c)) =
           timeouts c @ [(nextPromise c, make_echo now (wsSequence c), strip_leading_slash endpoint, 10000)]"
    and "settled (snd (requestWs endpoint params now c)) = settled c"
    and "nextPromise (snd (requestWs endpoint params now c)) = Suc (nextPromise c)"
    and "wsSequence (snd (requestWs endpoint params now c)) = Suc (wsSequence c)"
  using assms by (simp_all add: requestWs_def Let_def)

lemma request_cases:
  assumes "request rs endpoint body now c = Inr res"
  shows "snd res = c \<or> (ws c \<noteq> None \<and> snd res = snd (requestWs endpoint body now c))"
  using assms by (auto simp: request_def split: if_splits prod.splits)

lemma issued_is_pending:
  assumes inv: "client_inv c" and req: "request rs endpoint body now c = Inr (ViaSocket p, c1)"
  shows "pending_call (make_echo now (wsSequence c)) p (strip_leading_slash endpoint) c1"
proof -
  note r = request_socket [OF req]
  obtain sock where sock: "ws c = Some sock" using r(3) by auto
  note f = requestWs_fields [OF sock, of endpoint body now]
  have "\<forall>x \<in> set (settled c). fst x < nextPromise c" using inv by (simp add: client_inv_def)
  then have "filter (\<lambda>x. fst x = p) (settled c) = []"
    using r(1) by (auto simp: filter_empty_conv)
  then show ?thesis
    using r(1,2) by (simp add: pending_call_def f)
qed


lemma pending_emit:
  assumes inv: "client_inv c" and pend: "pending_call e p action c"
    and em: "emit name r c = Inr c'" and ne: "name \<noteq> e"
  shows "pending_call e p action c'"
proof -
  note f = emit_fields [OF em]
  have d2: "distinct (map snd (responseEmitter c))" using inv by (simp add: client_inv_def)
  have in_L: "(e, p) \<in> set (responseEmitter c)" using pend by (simp add: pending_call_def)
  have untouched: "p \<notin> snd ` set (filter (\<lambda>l. fst l = name) (responseEmitter c))"
  proof
    assume "p \<in> snd ` set (filter (\<lambda>l. fst l = name) (responseEmitter c))"
    then obtain l where l: "l \<in> set (responseEmitter c)" "fst l = name" "snd l = p" by auto
    then have "(name, p) \<in> set (responseEmitter c)" by (metis prod.collapse)
    then have "e = name" by (rule same_promise_same_echo [OF d2 in_L])
    then show False using ne by simp
  qed
  then have "filter (\<lambda>x. fst x = p)
      (map (\<lambda>l. (snd l, outcome_of r)) (filter (\<lambda>l. fst l = name) (responseEmitter c))) = []"
    by (force simp: filter_empty_conv)
  then show ?thesis
    using pend ne untouched by (simp add: pending_call_def f)
qed

lemma pending_on_timeout:
  assumes inv: "client_inv c" and pend: "pending_call e p action c" and ne: "q \<noteq> p"
  shows "pending_call e p action (on_timeout q c)"
proof (cases "filter (\<lambda>t. fst t = q) (timeouts c)")
  case Nil
  then show ?thesis using pend by (simp add: on_timeout_def)
next
  case (Cons t ts)
  note f = on_timeout_fields [OF Cons]
  have t: "t \<in> set (timeouts c)" "fst t = q" using armed_timer [OF Cons] by simp_all
  have d1: "distinct (map fst (responseEmitter c))" using inv by (simp add: client_inv_def)
  have in_L: "(e, p) \<in> set (responseEmitter c)" using pend by (simp add: pending_call_def)
  have "(fst (snd t), q) \<in> set (responseEmitter c)" using inv t by (auto simp: client_inv_def)
  then have "fst (snd t) \<noteq> e"
    using same_echo_same_promise [OF d1 in_L] ne by auto
  then show ?thesis
    using pend ne by (simp add: pending_call_def f)
qed

lemma pending_requestWs:
  assumes pend: "pending_call e p action c" and sock: "ws c \<noteq> None"
  shows "pending_call e p action (snd (requestWs endpoint body now c))"
proof -
  obtain sock where "ws c = Some sock" using sock by auto
  note f = requestWs_fields [OF this, of endpoint body now]
  show ?thesis using pend by (simp add: pending_call_def f)
qed

lemma pending_step:
  assumes inv: "client_inv c" and pend: "pending_call e p action c" and la: "leaves_alone e p op"
  shows "pending_call e p action (client_step c op)"
proof (cases op)
  case (DoSetWs w)
  then show ?thesis using pend by (simp add: pending_call_def setWs_def)
next
  case (DoRequest rs endpoint body now)
  show ?thesis
  proof (cases "request rs endpoint body now c")
    case (Inl err)
    then show ?thesis using pend DoRequest by simp
  next
    case (Inr res)
    then show ?thesis
      using request_cases [OF Inr] pend pending_requestWs [OF pend, of endpoint body now] DoRequest
      by auto
  qed
next
  case (DoResponse r)
  show ?thesis
  proof (cases "handleWsResponse r c")
    case (Inl err)
    then show ?thesis using pend DoResponse by simp
  next
    case (Inr c')
    show ?thesis
    proof (cases "truthy (echo r)")
      case False
      then show ?thesis using Inr pend DoResponse by (simp add: handleWsResponse_def)
    next
      case True
      then obtain name where name: "echo r = Some name"
        by (auto simp: truthy_def split: option.splits)
      then have "name \<noteq> e" using la DoResponse by (simp add: leaves_alone_def)
      moreover have "emit name r c = Inr c'"
        using Inr True name by (simp add: handleWsResponse_def)
      ultimately have "pending_call e p action c'"
        using pending_emit [OF inv pend] by blast
      then show ?thesis using Inr DoResponse by simp
    qed
  qed
next
  case (DoTimeout q)
  then have "q \<noteq> p" using la by (simp add: leaves_alone_def)
  then show ?thesis using pending_on_timeout [OF inv pend] DoTimeout by simp
qed

lemma pending_run:
  assumes "client_inv c" and "pending_call e p action c" and "list_all (leaves_alone e p) ops"
  shows "pending_call e p action (client_run c ops)"
  using assms
proof (induction ops arbitrary: c)
  case Nil
  then show ?case by (simp add: client_run_def)
next
  case (Cons op ops)
  have "client_inv (client_step c op)" using Cons.prems(1) by (rule inv_client_step)
  moreover have "pending_call e p action (client_step c op)"
    using Cons.prems by (simp add: pending_step)
  ultimately have "pending_call e p action (client_run (client_step c op) ops)"
    using Cons.IH Cons.prems(3) by simp
  then show ?case by (simp add: client_run_def)
qed


lemma timeout_finishes:
  assumes inv: "client_inv c" and pend: "pending_call e p action c"
  shows "finished_call e p (Rejected (timeout_message action)) (on_timeout p c)"
proof -
  have in_T: "(p, e, action, 10000) \<in> set (timeouts c)"
    and in_L: "(e, p) \<in> set (responseEmitter c)"
    and fresh: "filter (\<lambda>x. fst x = p) (settled c) = []"
    using pend by (simp_all add: pending_call_def)
  have d2: "distinct (map snd (responseEmitter c))" and dT: "distinct (map fst (timeouts c))"
    using inv by (simp_all add: client_inv_def)
  have "(p, e, action, 10000) \<in> set (filter (\<lambda>t. fst t = p) (timeouts c))"
    using in_T by simp
  then obtain t ts where Cons: "filter (\<lambda>t. fst t = p) (timeouts c) = t # ts"
    by (cases "filter (\<lambda>t. fst t = p) (timeouts c)") auto
  have "t \<in> set (timeouts c)" "fst t = p" using armed_timer [OF Cons] by simp_all
  then have "(p, snd t) \<in> set (timeouts c)" by (metis prod.collapse)
  then have "snd t = (e, action, 10000)"
    using eq_key_imp_eq_value [OF dT _ in_T] by simp
  then have t: "fst (snd t) = e" "fst (snd (snd t)) = action" by simp_all
  note f = on_timeout_fields [OF Cons, unfolded t]
  have "\<forall>l \<in> set (responseEmitter c).
         snd l < nextPromise c \<and> (\<exists>t s. fst l = make_echo t s \<and> s < wsSequence c)"
    using inv by (simp add: client_inv_def)
  from this in_L have "snd (e, p) < nextPromise c \<and>
      (\<exists>t s. fst (e, p) = make_echo t s \<and> s < wsSequence c)"
    by (rule bspec)
  then have lt: "p < nextPromise c" and tok: "\<exists>t s. e = make_echo t s \<and> s < wsSequence c"
    by simp_all
  have gone: "p \<notin> snd ` set (filter (\<lambda>l. fst l \<noteq> e) (responseEmitter c))"
  proof
    assume "p \<in> snd ` set (filter (\<lambda>l. fst l \<noteq> e) (responseEmitter c))"
    then obtain l' where l': "l' \<in> set (responseEmitter c)" "fst l' \<noteq> e" "snd l' = p" by auto
    then have "(fst l', p) \<in> set (responseEmitter c)" by (metis prod.collapse)
    then have "e = fst l'" by (rule same_promise_same_echo [OF d2 in_L])
    then show False using l'(2) by simp
  qed
  have "p \<notin> fst ` set (filter (\<lambda>t. fst t \<noteq> p) (timeouts c))"
    and "e \<notin> fst ` set (filter (\<lambda>l. fst l \<noteq> e) (responseEmitter c))"
    by auto
  then show ?thesis
    unfolding finished_call_def f using lt tok gone fresh by simp
qed

lemma finished_requestWs:
  assumes fin: "finished_call e p out c" and sock: "ws c \<noteq> None"
  shows "finished_call e p out (snd (requestWs endpoint body now c))"
proof -
  obtain sock where "ws c = Some sock" using sock by auto
  note f = requestWs_fields [OF this, of endpoint body now]
  obtain t s where e: "e = make_echo t s" "s < wsSequence c"
    using fin by (auto simp: finished_call_def)
  then have "e \<noteq> make_echo now (wsSequence c)"
    using make_echo_inj [of t s now "wsSequence c"] by auto
  moreover have "\<exists>t s. e = make_echo t s \<and> s < Suc (wsSequence c)"
    using e less_Suc_eq by blast
  ultimately show ?thesis
    using fin by (auto simp: finished_call_def f)
qed

lemma finished_emit:
  assumes fin: "finished_call e p out c" and em: "emit name r c = Inr c'"
  shows "finished_call e p out c'"
proof -
  note f = emit_fields [OF em]
  have "p \<notin> snd ` set (responseEmitter c)" using fin by (simp add: finished_call_def)
  then have "filter (\<lambda>x. fst x = p)
      (map (\<lambda>l. (snd l, outcome_of r)) (filter (\<lambda>l. fst l = name) (responseEmitter c))) = []"
    by (force simp: filter_empty_conv)
  then show ?thesis
    using fin by (auto simp: finished_call_def f)
qed

lemma finished_on_timeout:
  assumes fin: "finished_call e p out c"
  shows "finished_call e p out (on_timeout q c)"
proof (cases "filter (\<lambda>t. fst t = q) (timeouts c)")
  case Nil
  then show ?thesis using fin by (simp add: on_timeout_def)
next
  case (Cons t ts)
  note f = on_timeout_fields [OF Cons]
  have "t \<in> set (timeouts c)" "fst t = q" using armed_timer [OF Cons] by simp_all
  then have "q \<in> fst ` set (timeouts c)" by force
  then have "q \<noteq> p" using fin by (auto simp: finished_call_def)
  then show ?thesis
    using fin by (auto simp: finished_call_def f)
qed

lemma finished_step:
  assumes fin: "finished_call e p out c"
  shows "finished_call e p out (client_step c op)"
proof (cases op)
  case (DoSetWs w)
  then show ?thesis using fin by (simp add: finished_call_def setWs_def)
next
  case (DoRequest rs endpoint body now)
  show ?thesis
  proof (cases "request rs endpoint body now c")
    case (Inl err)
    then show ?thesis using fin DoRequest by simp
  next
    case (Inr res)
    then show ?thesis
      using request_cases [OF Inr] fin finished_requestWs [OF fin, of endpoint body now] DoRequest
      by auto
  qed
next
  case (DoResponse r)
  show ?thesis
  proof (cases "handleWsResponse r c")
    case (Inl err)
    then show ?thesis using fin DoResponse by simp
  next
    case (Inr c')
    then have "c' = c \<or> emit (the (echo r)) r c = Inr c'"
      by (auto simp: handleWsResponse_def split: if_splits)
    then have "finished_call e p out c'"
      using fin finished_emit [OF fin] by blast
    then show ?thesis using Inr DoResponse by simp
  qed
next
  case (DoTimeout q)
  then show ?thesis using finished_on_timeout [OF fin] by simp
qed

lemma finished_run: "finished_call e p out c \<Longrightarrow> finished_call e p out (client_run c ops)"
  unfolding client_run_def by (induction ops arbitrary: c) (simp_all add: finished_step)

lemma finished_ignores_token:
  assumes "finished_call e p out c" and "echo r = Some e"
  shows "client_step c (DoResponse r) = c"
proof -
  have "echo r \<notin> Some ` fst ` set (responseEmitter c)"
    using assms by (auto simp: finished_call_def)
  then show ?thesis by (rule unknown_token_ignored)
qed

lemma messages_differ: "timeout_message action \<noteq> api_error_message r"
  by (simp add: timeout_message_def api_error_message_def)

lemma removed_listener_cause:
  assumes inv: "client_inv c" and l: "l \<in> set (responseEmitter c)"
    and gone: "l \<notin> set (responseEmitter (client_step c op))"
  shows "(\<exists>resp. op = DoResponse resp \<and> echo resp = Some (fst l)) \<or> op = DoTimeout (snd l)"
proof (cases op)
  case (DoSetWs w)
  then show ?thesis using l gone by (simp add: setWs_def)
next
  case (DoRequest rs endpoint body now)
  show ?thesis
  proof (cases "request rs endpoint body now c")
    case (Inl err)
    then show ?thesis using l gone DoRequest by simp
  next
    case (Inr res)
    have "l \<in> set (responseEmitter (snd res))"
    proof (cases "snd res = c")
      case True
      then show ?thesis using l by simp
    next
      case False
      then have w: "ws c \<noteq> None" and r: "snd res = snd (requestWs endpoint body now c)"
        using request_cases [OF Inr] by auto
      obtain sock where "ws c = Some sock" using w by auto
      then show ?thesis using requestWs_fields(1) [of c sock endpoint body now] l r by simp
    qed
    then show ?thesis using gone Inr DoRequest by simp
  qed
next
  case (DoResponse r)
  show ?thesis
  proof (cases "handleWsResponse r c")
    case (Inl err)
    then show ?thesis using l gone DoResponse by simp
  next
    case (Inr c')
    show ?thesis
    proof (cases "truthy (echo r)")
      case False
      then show ?thesis using Inr l gone DoResponse by (simp add: handleWsResponse_def)
    next
      case True
      then obtain name where name: "echo r = Some name"
        by (auto simp: truthy_def split: option.splits)
      then have "emit name r c = Inr c'"
        using Inr True by (simp add: handleWsResponse_def)
      then have "responseEmitter c' = filter (\<lambda>l. fst l \<noteq> name) (responseEmitter c)"
        by (rule emit_fields(1))
      then have "fst l = name" using l gone Inr DoResponse by auto
      then show ?thesis using name DoResponse by simp
    qed
  qed
next
  case (DoTimeout q)
  show ?thesis
  proof (cases "filter (\<lambda>t. fst t = q) (timeouts c)")
    case Nil
    then show ?thesis using l gone DoTimeout by (simp add: on_timeout_def)
  next
    case (Cons t ts)
    have t: "t \<in> set (timeouts c)" "fst t = q" using armed_timer [OF Cons] by simp_all
    have d1: "distinct (map fst (responseEmitter c))" using inv by (simp add: client_inv_def)
    have in_L: "(fst (snd t), q) \<in> set (responseEmitter c)" using inv t by (auto simp: client_inv_def)
    have "fst l = fst (snd t)"
      using l gone DoTimeout on_timeout_fields(1) [OF Cons] by auto
    then have "(fst (snd t), snd l) \<in> set (responseEmitter c)" using l by (metis prod.collapse)
    then have "q = snd l" by (rule same_echo_same_promise [OF d1 in_L])
    then show ?thesis using DoTimeout by simp
  qed
qed

lemma on_close_client:
  "apiClient (on_close s r) = apiClient r \<or> apiClient (on_close s r) = setWs None (apiClient r)"
  by (auto simp: on_close_def set_readyState_def scheduleReconnect_def onError_def Let_def)

subsection \<open>The client keeps its HTTP endpoint\<close>

lemma client_run_simps:
  "client_run c [] = c"
  "client_run c (op # ops) = client_run (client_step c op) ops"
  "client_run c (ops @ ops') = client_run (client_run c ops) ops'"
  by (simp_all add: client_run_def)

lemma httpUrl_client_step: "c_httpUrl (client_step c op) = c_httpUrl c"
proof (cases op)
  case (DoSetWs w)
  then show ?thesis by (simp add: setWs_def)
next
  case (DoRequest rs endpoint body now)
  then show ?thesis
    by (auto simp: request_def requestWs_def settle_def Let_def split: sum.splits if_splits option.splits)
next
  case (DoResponse r)
  then show ?thesis
    by (auto simp: handleWsResponse_def emit_fields(8) split: sum.splits if_splits)
next
  case (DoTimeout p)
  then show ?thesis
    by (cases "filter (\<lambda>t. fst t = p) (timeouts c)")
       (simp_all add: on_timeout_fields(8), simp add: on_timeout_def)
qed

lemma httpUrl_client_run: "c_httpUrl (client_run c ops) = c_httpUrl c"
  by (induction ops arbitrary: c) (simp_all add: client_run_simps httpUrl_client_step)

lemma configured_endpoint:
  "httpUrl config = Some u \<Longrightarrow> u \<noteq> [] \<Longrightarrow> u \<noteq> ''/'' \<Longrightarrow>
     truthy (c_httpUrl (new_NapCatApiClient config))"
proof -
  assume u: "httpUrl config = Some u" "u \<noteq> []" "u \<noteq> ''/''"
  have "strip_trailing_slash u \<noteq> []"
  proof (cases "last u = CHR ''/''")
    case True
    then have "u = butlast u @ ''/''" using u(2) by (metis append_butlast_last_id)
    then have "butlast u \<noteq> []" using u(3) by auto
    then show ?thesis using True u(2) by (simp add: strip_trailing_slash_def)
  next
    case False
    then show ?thesis using u(2) by (simp add: strip_trailing_slash_def)
  qed
  then show ?thesis using u by (simp add: new_NapCatApiClient_def truthy_def)
qed

subsection \<open>The runtime drives its client through the client's operations\<close>

lemma client_scheduleReconnect: "apiClient (scheduleReconnect r) = apiClient r"
  by (simp add: scheduleReconnect_def onError_def Let_def)

lemma client_start_connect: "apiClient (start_connect ctor r) = apiClient r"
  by (simp add: start_connect_def client_scheduleReconnect onError_def split: option.splits)

lemma client_start: "\<exists>ops. apiClient (start now ctor r) = client_run (apiClient r) ops"
proof (cases "truthy (httpUrl (account r))")
  case True
  then have "apiClient (start now ctor r) =
      client_run (apiClient r) [DoRequest (readyStates r) ''/get_login_info'' ''{}'' now]"
    by (simp add: start_def getLoginInfo_def client_run_def split: sum.splits)
  then show ?thesis by blast
next
  case False
  then have "apiClient (start now ctor r) = client_run (apiClient r) []"
    by (simp add: start_def client_start_connect client_run_def)
  then show ?thesis by blast
qed

lemma client_reconnect: "\<exists>ops. apiClient (reconnect now ctor r) = client_run (apiClient r) ops"
proof -
  obtain r1 where r1: "reconnect now ctor r = start now ctor r1" "apiClient r1 = apiClient r"
    by (cases "r_ws r") (simp_all add: reconnect_def Let_def)
  then show ?thesis using client_start [of now ctor r1] by simp
qed

lemma client_on_open: "\<exists>ops. apiClient (on_open s now r) = client_run (apiClient r) ops"
proof -
  let ?r1 = "set_readyState s OPEN r"
  let ?r2 = "?r1\<lparr>reconnectAttempts := 0, apiClient := setWs (r_ws ?r1) (apiClient ?r1)\<rparr>"
  have "apiClient (on_open s now r) = client_run (apiClient r) [] \<or>
        apiClient (on_open s now r) = client_run (apiClient r) [DoSetWs (r_ws r)] \<or>
        apiClient (on_open s now r) = client_run (apiClient r)
          [DoSetWs (r_ws r), DoRequest (readyStates ?r2) ''/get_login_info'' ''{}'' now]"
    by (auto simp: on_open_def Let_def set_readyState_def getLoginInfo_def client_run_def
        split: sum.splits)
  then show ?thesis by blast
qed

lemma client_on_message: "\<exists>ops. apiClient (on_message s frame r) = client_run (apiClient r) ops"
proof (cases frame)
  case None
  then have "apiClient (on_message s frame r) = client_run (apiClient r) []"
    by (simp add: on_message_def client_run_def)
  then show ?thesis by blast
next
  case (Some payload)
  then have "apiClient (on_message s frame r) = client_run (apiClient r) [] \<or>
        apiClient (on_message s frame r) =
           client_run (apiClient r) [DoResponse (as_response payload)]"
    by (auto simp: on_message_def handlePayload_def client_run_def split: sum.splits)
  then show ?thesis by blast
qed

lemma client_on_close: "\<exists>ops. apiClient (on_close s r) = client_run (apiClient r) ops"
proof -
  have "apiClient (on_close s r) = client_run (apiClient r) [] \<or>
        apiClient (on_close s r) = client_run (apiClient r) [DoSetWs None]"
    using on_close_client [of s r] by (simp add: client_run_def)
  then show ?thesis by blast
qed

lemma client_step_of_runtime: "\<exists>ops. apiClient (step r e) = client_run (apiClient r) ops"
proof (cases e)
  case (Start now ctor)
  then show ?thesis using client_start by simp
next
  case (LoginSettled ctor)
  then have "apiClient (step r e) = client_run (apiClient r) []"
    by (simp add: login_settled_def client_start_connect client_run_def)
  then show ?thesis by blast
next
  case Stop
  then have "apiClient (step r e) = client_run (apiClient r) []"
    by (simp add: stop_client client_run_def)
  then show ?thesis by blast
next
  case (SockOpen s now)
  then show ?thesis using client_on_open by simp
next
  case (SockMessage s frame)
  then show ?thesis using client_on_message by simp
next
  case (SockClose s)
  then show ?thesis using client_on_close by simp
next
  case (SockError s msg)
  then have "apiClient (step r e) = client_run (apiClient r) []"
    by (simp add: on_error_def onError_def client_run_def)
  then show ?thesis by blast
next
  case (ReconnectTimer i now ctor)
  show ?thesis
  proof (cases "i < length (reconnectTimers r) \<and> \<not> isClosing r")
    case True
    then show ?thesis
      using ReconnectTimer
        client_reconnect [of now ctor
          "r\<lparr>reconnectTimers := take i (reconnectTimers r) @ drop (Suc i) (reconnectTimers r)\<rparr>"]
      by (simp add: on_reconnect_timer_def Let_def)
  next
    case False
    then have "apiClient (step r e) = client_run (apiClient r) []"
      using ReconnectTimer by (auto simp: on_reconnect_timer_def Let_def client_run_def)
    then show ?thesis by blast
  qed
next
  case (ApiCall endpoint body now)
  then have "apiClient (step r e) =
      client_run (apiClient r) [DoRequest (readyStates r) endpoint body now]"
    by (simp add: api_call_def client_run_def split: sum.splits)
  then show ?thesis by blast
next
  case (RequestTimer p)
  then have "apiClient (step r e) = client_run (apiClient r) [DoTimeout p]"
    by (simp add: client_run_def)
  then show ?thesis by blast
qed

lemma client_of_run: "\<exists>ops. apiClient (run r evs) = client_run (apiClient r) ops"
proof (induction evs arbitrary: r)
  case Nil
  have "apiClient (run r []) = client_run (apiClient r) []"
    by (simp add: run_def client_run_def)
  then show ?case by blast
next
  case (Cons e evs)
  obtain ops1 where 1: "apiClient (step r e) = client_run (apiClient r) ops1"
    using client_step_of_runtime by blast
  obtain ops2 where 2: "apiClient (run (step r e) evs) = client_run (apiClient (step r e)) ops2"
    using Cons.IH by blast
  have "apiClient (run r (e # evs)) = client_run (apiClient r) (ops1 @ ops2)"
    using 1 2 by (simp add: run_def client_run_simps)
  then show ?case by blast
qed

lemma runtime_client_reachable:
  "\<exists>ops. apiClient (run (new_NapCatRuntime acct) evs) = client_run (new_NapCatApiClient acct) ops"
  using client_of_run [of "new_NapCatRuntime acct" evs] by (simp add: new_NapCatRuntime_def)

section \<open>Transport selection\<close>

text \<open>
  C1. Every call issued through the action client is routed by \<open>request\<close>: when the
  client has an HTTP endpoint the call goes over HTTP, whatever the socket's state
  (also when it is open), and the client's socket bookkeeping is untouched; without an
  HTTP endpoint and with an open socket it goes over the socket; with neither, it fails
  with the "no transport available" error. A client built from an account whose
  \<open>httpUrl\<close> is more than a bare slash has an HTTP endpoint for as long as it lives.
\<close>

theorem request_transport_precedence:
  "(truthy (c_httpUrl c) \<longrightarrow>
      request rs endpoint body now c = Inr (ViaHttp (requestHttp endpoint body c), c)) \<and>
   (\<not> truthy (c_httpUrl c) \<and> ws c = Some sock \<and> rs sock = OPEN \<longrightarrow>
      (\<exists>c'. request rs endpoint body now c = Inr (ViaSocket (nextPromise c), c') \<and>
            sent c' = sent c @ [(sock, \<lparr>f_action = strip_leading_slash endpoint, f_params = body,
                                       f_echo = make_echo now (wsSequence c)\<rparr>)])) \<and>
   (\<not> truthy (c_httpUrl c) \<and> (ws c = None \<or> (\<exists>sock. ws c = Some sock \<and> rs sock \<noteq> OPEN)) \<longrightarrow>
      request rs endpoint body now c = Inl no_transport) \<and>
   (httpUrl config = Some u \<and> u \<noteq> [] \<and> u \<noteq> ''/'' \<longrightarrow>
      request rs endpoint body now (client_run (new_NapCatApiClient config) ops) =
        Inr (ViaHttp (requestHttp endpoint body (client_run (new_NapCatApiClient config) ops)),
             client_run (new_NapCatApiClient config) ops))"
proof -
  have http: "truthy (c_httpUrl c) \<longrightarrow>
      request rs endpoint body now c = Inr (ViaHttp (requestHttp endpoint body c), c)" for c
    by (simp add: request_def)
  have socket: "\<not> truthy (c_httpUrl c) \<and> ws c = Some sock \<and> rs sock = OPEN \<longrightarrow>
      (\<exists>c'. request rs endpoint body now c = Inr (ViaSocket (nextPromise c), c') \<and>
            sent c' = sent c @ [(sock, \<lparr>f_action = strip_leading_slash endpoint, f_params = body,
                                       f_echo = make_echo now (wsSequence c)\<rparr>)])"
    by (simp add: request_def requestWs_def Let_def)
  have neither: "\<not> truthy (c_httpUrl c) \<and>
      (ws c = None \<or> (\<exists>sock. ws c = Some sock \<and> rs sock \<noteq> OPEN)) \<longrightarrow>
      request rs endpoint body now c = Inl no_transport"
    by (auto simp: request_def)
  have always: "httpUrl config = Some u \<and> u \<noteq> [] \<and> u \<noteq> ''/'' \<longrightarrow>
      request rs endpoint body now (client_run (new_NapCatApiClient config) ops) =
        Inr (ViaHttp (requestHttp endpoint body (client_run (new_NapCatApiClient config) ops)),
             client_run (new_NapCatApiClient config) ops)"
    using http [of "client_run (new_NapCatApiClient config) ops"]
      configured_endpoint [of config u] httpUrl_client_run [of "new_NapCatApiClient config" ops]
    by simp
  show ?thesis using http [of c] socket neither always by blast
qed

theorem request_transport_precedence_witness:
  "request (\<lambda>_. OPEN) ''/send_msg'' ''{}'' 5
     ((new_NapCatApiClient \<lparr>wsUrl = None, httpUrl = Some ''http://127.0.0.1:3000/'', token = None,
         adminUins = None\<rparr>) \<lparr>ws := Some 0\<rparr>)
   = Inr (ViaHttp \<lparr>h_url = ''http://127.0.0.1:3000/send_msg'',
                   h_headers = [(''Content-Type'', ''application/json'')], h_body = ''{}''\<rparr>,
          (new_NapCatApiClient \<lparr>wsUrl = None, httpUrl = Some ''http://127.0.0.1:3000/'', token = None,
         adminUins = None\<rparr>) \<lparr>ws := Some 0\<rparr>) \<and>
   (\<exists>c'. request (\<lambda>_. OPEN) ''/send_msg'' ''{}'' 5
      ((new_NapCatApiClient \<lparr>wsUrl = Some ''ws://h'', httpUrl = None, token = None,
         adminUins = None\<rparr>) \<lparr>ws := Some 0\<rparr>) = Inr (ViaSocket 0, c') \<and>
      sent c' = [(0, \<lparr>f_action = ''send_msg'', f_params = ''{}'', f_echo = ''api_5_0''\<rparr>)]) \<and>
   request (\<lambda>_. CLOSED) ''/send_msg'' ''{}'' 5
      ((new_NapCatApiClient \<lparr>wsUrl = Some ''ws://h'', httpUrl = None, token = None,
         adminUins = None\<rparr>) \<lparr>ws := Some 0\<rparr>) = Inl no_transport \<and>
   request (\<lambda>_. OPEN) ''/send_msg'' ''{}'' 5
     (client_run (new_NapCatApiClient \<lparr>wsUrl = Some ''ws://h'', httpUrl = Some ''http://h/'',
         token = None, adminUins = None\<rparr>) [DoSetWs (Some 0)])
   = Inr (ViaHttp \<lparr>h_url = ''http://h/send_msg'',
                   h_headers = [(''Content-Type'', ''application/json'')], h_body = ''{}''\<rparr>,
          client_run (new_NapCatApiClient \<lparr>wsUrl = Some ''ws://h'', httpUrl = Some ''http://h/'',
         token = None, adminUins = None\<rparr>) [DoSetWs (Some 0)])"
  using request_transport_precedence [where c =
      "(new_NapCatApiClient \<lparr>wsUrl = None, httpUrl = Some ''http://127.0.0.1:3000/'', token = None,
         adminUins = None\<rparr>) \<lparr>ws := Some 0\<rparr>" and rs = "\<lambda>_. OPEN" and endpoint = "''/send_msg''"
      and body = "''{}''" and now = 5 and sock = 0
      and config = "\<lparr>wsUrl = Some ''ws://h'', httpUrl = Some ''http://h/'', token = None, adminUins = None\<rparr>"
      and u = "''http://h/''" and ops = "[DoSetWs (Some 0)]"]
    request_transport_precedence [where c =
      "(new_NapCatApiClient \<lparr>wsUrl = Some ''ws://h'', httpUrl = None, token = None,
         adminUins = None\<rparr>) \<lparr>ws := Some 0\<rparr>" and rs = "\<lambda>_. OPEN" and endpoint = "''/send_msg''"
      and body = "''{}''" and now = 5 and sock = 0]
    request_transport_precedence [where c =
      "(new_NapCatApiClient \<lparr>wsUrl = Some ''ws://h'', httpUrl = None, token = None,
         adminUins = None\<rparr>) \<lparr>ws := Some 0\<rparr>" and rs = "\<lambda>_. CLOSED" and endpoint = "''/send_msg''"
      and body = "''{}''" and now = 5 and sock = 0]
  by (simp add: new_NapCatApiClient_def truthy_def strip_trailing_slash_def requestHttp_def
      template_str_def strip_leading_slash_def make_echo_def string_of_nat.simps digit_char_def
      client_run_def setWs_def)

section \<open>A socket call that times out\<close>

text \<open>
  C2. A call is routed over the socket by a client in any state it can reach. As long
  as no response with the call's token is handed to the client and the call's timeout
  has not fired, the timeout stays armed with the delay of 10000 ms and the call is not
  settled. When the timeout fires, the call is rejected with the timeout error, whose
  message differs from every protocol error message. Whatever happens afterwards, that
  rejection stays the call's only settlement: a late response with the token, or any
  number of them, leaves the client exactly as it was, and so does the timeout handle.
\<close>

theorem socket_call_times_out_once:
  assumes reach: "c0 = client_run (new_NapCatApiClient config) ops0"
    and issued: "request rs endpoint body now c0 = Inr (ViaSocket p, c1)"
    and silent: "list_all (leaves_alone (make_echo now (wsSequence c0)) p) ops1"
    and fired: "c2 = on_timeout p (client_run c1 ops1)"
  shows "(p, make_echo now (wsSequence c0), strip_leading_slash endpoint, 10000)
           \<in> set (timeouts (client_run c1 ops1)) \<and>
         filter (\<lambda>x. fst x = p) (settled (client_run c1 ops1)) = [] \<and>
         filter (\<lambda>x. fst x = p) (settled (client_run c2 ops2)) =
           [(p, Rejected (timeout_message (strip_leading_slash endpoint)))] \<and>
         timeout_message (strip_leading_slash endpoint) \<noteq> api_error_message r \<and>
         (echo late = Some (make_echo now (wsSequence c0)) \<longrightarrow>
            client_step (client_run c2 ops2) (DoResponse late) = client_run c2 ops2) \<and>
         client_step (client_run c2 ops2) (DoTimeout p) = client_run c2 ops2"
proof -
  let ?e = "make_echo now (wsSequence c0)"
  let ?a = "strip_leading_slash endpoint"
  have inv0: "client_inv c0" unfolding reach by (rule inv_client_run) (rule inv_new)
  have inv1: "client_inv c1" using inv_request [OF inv0 issued] by simp
  have "pending_call ?e p ?a c1" using issued_is_pending [OF inv0 issued] .
  then have pend: "pending_call ?e p ?a (client_run c1 ops1)"
    using pending_run [OF inv1 _ silent] by blast
  have inv2: "client_inv (client_run c1 ops1)" using inv1 by (rule inv_client_run)
  have "finished_call ?e p (Rejected (timeout_message ?a)) c2"
    unfolding fired using timeout_finishes [OF inv2 pend] .
  then have fin: "finished_call ?e p (Rejected (timeout_message ?a)) (client_run c2 ops2)"
    by (rule finished_run)
  have idle: "client_step (client_run c2 ops2) (DoTimeout p) = client_run c2 ops2"
    using fin by (simp add: finished_call_def on_timeout_idle)
  show ?thesis
    using pend fin idle finished_ignores_token [OF fin, of late] messages_differ
    by (simp add: pending_call_def finished_call_def)
qed


theorem socket_call_times_out_once_witness:
  "filter (\<lambda>x. fst x = 0)
     (settled (client_run
        (on_timeout 0 (client_run (snd (requestWs ''/send_msg'' ''{}'' 1000 socket_client))
           [DoResponse (as_response (ok_frame ''api_1000_7'' ''other''))]))
        [DoResponse (as_response (ok_frame ''api_1000_0'' ''late'')),
         DoResponse (as_response (ok_frame ''api_1000_0'' ''again''))])) =
     [(0, Rejected ''WebSocket API request timed out: send_msg'')]"
proof -
  have c0: "socket_client = (new_NapCatApiClient sample_account)\<lparr>ws := Some 0\<rparr>"
    by (simp add: socket_client_def client_run_def setWs_def)
  have req: "request (\<lambda>_. OPEN) ''/send_msg'' ''{}'' 1000 socket_client =
      Inr (ViaSocket 0, snd (requestWs ''/send_msg'' ''{}'' 1000 socket_client))"
    by (simp add: c0 request_def requestWs_def new_NapCatApiClient_def sample_account_def truthy_def Let_def)
  have seq: "wsSequence socket_client = 0"
    by (simp add: c0 new_NapCatApiClient_def)
  have silent: "list_all (leaves_alone (make_echo 1000 (wsSequence socket_client)) 0)
      [DoResponse (as_response (ok_frame ''api_1000_7'' ''other''))]"
    by (simp add: seq echo_1000 leaves_alone_def ok_frame_def)
  show ?thesis
    using socket_call_times_out_once [OF socket_client_def req silent refl,
        where ?ops2.0 = "[DoResponse (as_response (ok_frame ''api_1000_0'' ''late'')),
         DoResponse (as_response (ok_frame ''api_1000_0'' ''again''))]"]
    by (simp add: timeout_message_def strip_leading_slash_def)
qed

section \<open>Suppressing a repeated reply\<close>

text \<open>
  C3 (as the code has it). Two replies are delivered for the same conversation and the
  same inbound message, the second after the first has finished; each has text or
  media, and no reply is on record for the key when the first is issued. Then the first
  fires a send. If that send succeeds and both replies have no media and the same text,
  and the second is issued less than 5000 ms after the first, the second is suppressed
  and the record stays: exactly one send fires. If the second is issued 5000 ms or more
  after the first, or the texts differ, or the second carries media, both fire. A send
  that is not suppressed and succeeds overwrites the record of the key with the text (or
  the empty string) and the time; a send that fails leaves the record as it was, so the
  next reply fires too.
\<close>

theorem reply_dedup_window:
  assumes none_before: "recent (messageKey_of m) = None"
    and first: "deliver fs e1 t1 m p1 recent = (d1, recent1)"
    and second: "deliver fs e2 t2 m p2 recent1 = (d2, recent2)"
    and nonempty1: "truthy (p_text p1) \<or> replyMedia_of p1 \<noteq> []"
    and nonempty2: "truthy (p_text p2) \<or> replyMedia_of p2 \<noteq> []"
  shows "fired d1 \<and>
         (e1 = None \<and> replyMedia_of p1 = [] \<and> replyMedia_of p2 = [] \<and> p_text p1 = p_text p2 \<and>
            t2 - t1 < 5000 \<longrightarrow> d2 = Suppressed \<and> recent2 = recent1) \<and>
         (t2 - t1 \<ge> 5000 \<or> p_text p1 \<noteq> p_text p2 \<or> replyMedia_of p2 \<noteq> [] \<longrightarrow> fired d2) \<and>
         (e1 = None \<longrightarrow> recent1 = recent(messageKey_of m \<mapsto>
            (if truthy (p_text p1) then the (p_text p1) else [], t1))) \<and>
         (e1 \<noteq> None \<longrightarrow> recent1 = recent \<and> fired d2) \<and>
         (fired d2 \<and> e2 = None \<longrightarrow> recent2 = recent1(messageKey_of m \<mapsto>
            (if truthy (p_text p2) then the (p_text p2) else [], t2)))"
proof -
  have f1: "fired d1"
    using deliver_fires [where p = p1 and recent = recent and m = m and fs = fs and e = e1 and t = t1]
      nonempty1 none_before first by simp
  have r1: "e1 = None \<Longrightarrow> recent1 = recent(messageKey_of m \<mapsto>
            (if truthy (p_text p1) then the (p_text p1) else [], t1))"
    using first nonempty1 none_before by (auto simp: deliver_def Let_def split: option.splits)
  have r1': "e1 \<noteq> None \<Longrightarrow> recent1 = recent"
    using first nonempty1 none_before by (auto simp: deliver_def Let_def split: option.splits)
  have sup: "d2 = Suppressed \<and> recent2 = recent1"
    if "e1 = None" "replyMedia_of p1 = []" "replyMedia_of p2 = []" "p_text p1 = p_text p2" "t2 - t1 < 5000"
  proof -
    have "truthy (p_text p2)" using nonempty2 that(3) by simp
    then show ?thesis
      using second that r1 [OF that(1)]
      by (auto simp: deliver_def Let_def REPLY_DEDUP_WINDOW_MS_def truthy_def split: option.splits)
  qed
  have both: "fired d2" if "t2 - t1 \<ge> 5000 \<or> p_text p1 \<noteq> p_text p2 \<or> replyMedia_of p2 \<noteq> []"
  proof (cases e1)
    case None
    show ?thesis
      using second that nonempty2 r1 [OF None]
      by (auto simp: deliver_def Let_def REPLY_DEDUP_WINDOW_MS_def truthy_def split: option.splits if_splits)
  next
    case (Some a)
    then have "recent1 = recent" using r1' by simp
    then show ?thesis
      using deliver_fires [where p = p2 and recent = recent and m = m and fs = fs and e = e2 and t = t2]
        nonempty2 none_before second by simp
  qed
  have failing: "fired d2" if "e1 \<noteq> None"
    using deliver_fires [where p = p2 and recent = recent and m = m and fs = fs and e = e2 and t = t2]
      nonempty2 none_before second r1' [OF that] by simp
  have r2: "recent2 = recent1(messageKey_of m \<mapsto>
            (if truthy (p_text p2) then the (p_text p2) else [], t2))" if "fired d2" "e2 = None"
    using second that by (auto simp: deliver_def Let_def split: option.splits if_splits)
  show ?thesis
    using f1 r1 r1' sup both failing r2 by blast
qed

theorem reply_dedup_window_witness:
  "deliver (\<lambda>_. Missing) None 1000 sample_group_event (text_reply ''hi'') Map.empty =
     (Sent (send_params sample_group_event (OutText (Some ''hi''))),
      [messageKey_of sample_group_event \<mapsto> (''hi'', 1000)]) \<and>
   fst (deliver (\<lambda>_. Missing) None 5999 sample_group_event (text_reply ''hi'')
        [messageKey_of sample_group_event \<mapsto> (''hi'', 1000)]) = Suppressed \<and>
   fired (fst (deliver (\<lambda>_. Missing) None 7000 sample_group_event (text_reply ''hi'')
        [messageKey_of sample_group_event \<mapsto> (''hi'', 1000)])) \<and>
   fired (fst (deliver (\<lambda>_. Missing) None 2000 sample_group_event (text_reply ''ho'')
        [messageKey_of sample_group_event \<mapsto> (''hi'', 1000)])) \<and>
   fired (fst (deliver (\<lambda>_. Missing) None 2000 sample_group_event (media_reply (Some ''hi'') [''http://x/a.png''])
        [messageKey_of sample_group_event \<mapsto> (''hi'', 1000)]))"
proof -
  let ?m = sample_group_event
  let ?fs = "\<lambda>_::string. Missing"
  let ?r1 = "[messageKey_of ?m \<mapsto> (''hi'', 1000::int)]"
  have first: "deliver ?fs None 1000 ?m (text_reply ''hi'') Map.empty =
     (Sent (send_params ?m (OutText (Some ''hi''))), ?r1)"
    by (simp add: deliver_def Let_def text_reply_def replyMedia_of_def truthy_def messageBody_of_def)
  have ne: "truthy (p_text (text_reply t)) \<or> replyMedia_of (text_reply t) \<noteq> []" if "t \<noteq> []" for t
    using that by (simp add: text_reply_def truthy_def)
  have nm: "truthy (p_text (media_reply (Some ''hi'') [''http://x/a.png''])) \<or>
        replyMedia_of (media_reply (Some ''hi'') [''http://x/a.png'']) \<noteq> []"
    by (simp add: media_reply_def truthy_def)
  note inst = reply_dedup_window [where recent = Map.empty and m = ?m and fs = ?fs and ?e1.0 = None
      and ?t1.0 = 1000 and ?p1.0 = "text_reply ''hi''" and ?recent1.0 = ?r1 and ?e2.0 = None,
      OF _ first surjective_pairing]
  have a: "fst (deliver ?fs None 5999 ?m (text_reply ''hi'') ?r1) = Suppressed"
    using inst [where ?t2.0 = 5999 and ?p2.0 = "text_reply ''hi''"] ne
    by (simp add: text_reply_def replyMedia_of_def truthy_def)
  have b: "fired (fst (deliver ?fs None 7000 ?m (text_reply ''hi'') ?r1))"
    using inst [where ?t2.0 = 7000 and ?p2.0 = "text_reply ''hi''"] ne
    by (simp add: text_reply_def replyMedia_of_def truthy_def)
  have c: "fired (fst (deliver ?fs None 2000 ?m (text_reply ''ho'') ?r1))"
    using inst [where ?t2.0 = 2000 and ?p2.0 = "text_reply ''ho''"] ne
    by (simp add: text_reply_def replyMedia_of_def truthy_def)
  have d: "fired (fst (deliver ?fs None 2000 ?m (media_reply (Some ''hi'') [''http://x/a.png'']) ?r1))"
    using inst [where ?t2.0 = 2000 and ?p2.0 = "media_reply (Some ''hi'') [''http://x/a.png'']"] ne nm
    by (simp add: text_reply_def media_reply_def replyMedia_of_def truthy_def)
  show ?thesis using first a b c d by simp
qed

text \<open>
  Media on the first reply alone does not make both fire: the text-only second reply
  with the same text inside the window is suppressed. And a first send that fails
  leaves no record, so that two sends fire for the same text inside the window.
\<close>

theorem media_first_then_text_is_suppressed:
  "fired (fst (deliver (\<lambda>_. Missing) None 1000 sample_group_event
                 (media_reply (Some ''hi'') [''http://x/a.png'']) Map.empty)) \<and>
   \<not> fired (fst (deliver (\<lambda>_. Missing) None 2000 sample_group_event (text_reply ''hi'')
                 (snd (deliver (\<lambda>_. Missing) None 1000 sample_group_event
                         (media_reply (Some ''hi'') [''http://x/a.png'']) Map.empty)))) \<and>
   snd (deliver (\<lambda>_. Missing) (Some ''HTTP 500'') 1000 sample_group_event (text_reply ''hi'') Map.empty)
     (messageKey_of sample_group_event) = None \<and>
   fired (fst (deliver (\<lambda>_. Missing) None 2000 sample_group_event (text_reply ''hi'')
                 (snd (deliver (\<lambda>_. Missing) (Some ''HTTP 500'') 1000 sample_group_event
                         (text_reply ''hi'') Map.empty))))"
  by (simp add: deliver_def Let_def text_reply_def media_reply_def replyMedia_of_def truthy_def
      messageBody_of_def REPLY_DEDUP_WINDOW_MS_def)

section \<open>Reconnect backoff\<close>

text \<open>
  C4. The timer scheduled before reconnect attempt \<open>n\<close> runs 3000, 4500, 6750, 10125 and
  15187 ms for the attempts 1 to 5: the delay handed to \<open>setTimeout\<close> is
  \<open>3000 * 1.5 ^ (n - 1)\<close> ms capped at 60000 ms, and the timer runs its whole ms. No
  timer runs longer than 60000 ms. Along every run of a runtime the attempt counter
  stays at most 10 and every timer ever armed belongs to an attempt between 1 and 10
  with that delay, so no 11th attempt is scheduled: \<open>scheduleReconnect\<close> arms the timer
  of the next attempt while the counter is below 10; at 10 it arms nothing and reports
  \<open>Max reconnect attempts reached\<close>.
\<close>

theorem reconnect_backoff_schedule:
  "setTimeout_ms (reconnect_delay 1) = 3000 \<and> setTimeout_ms (reconnect_delay 2) = 4500 \<and>
   setTimeout_ms (reconnect_delay 3) = 6750 \<and> setTimeout_ms (reconnect_delay 4) = 10125 \<and>
   setTimeout_ms (reconnect_delay 5) = 15187 \<and>
   reconnect_delay n \<le> 60000 \<and> setTimeout_ms (reconnect_delay n) \<le> 60000 \<and>
   reconnectAttempts (run (new_NapCatRuntime acct) evs) \<le> 10 \<and>
   (\<forall>x \<in> set (scheduled (run (new_NapCatRuntime acct) evs)).
      1 \<le> fst x \<and> fst x \<le> 10 \<and> snd x = setTimeout_ms (reconnect_delay (fst x)) \<and> snd x \<le> 60000) \<and>
   (\<not> isClosing r \<and> truthy (wsUrl (account r)) \<and> reconnectAttempts r < 10 \<longrightarrow>
      reconnectAttempts (scheduleReconnect r) = Suc (reconnectAttempts r) \<and>
      reconnectTimers (scheduleReconnect r) =
        reconnectTimers r @
        [(Suc (reconnectAttempts r), setTimeout_ms (reconnect_delay (Suc (reconnectAttempts r))))]) \<and>
   (\<not> isClosing r \<and> truthy (wsUrl (account r)) \<and> reconnectAttempts r \<ge> 10 \<longrightarrow>
      reconnectTimers (scheduleReconnect r) = reconnectTimers r \<and>
      scheduled (scheduleReconnect r) = scheduled r \<and>
      reconnectAttempts (scheduleReconnect r) = reconnectAttempts r \<and>
      errors (scheduleReconnect r) = errors r @ [''Max reconnect attempts reached''])"
proof -
  have cap: "reconnect_delay n \<le> 60000"
    by (simp add: reconnect_delay_def)
  have "attempts_bounded (run (new_NapCatRuntime acct) evs)"
    by (rule ab_run) (rule ab_new)
  then have reach: "reconnectAttempts (run (new_NapCatRuntime acct) evs) \<le> 10"
    "\<forall>x \<in> set (scheduled (run (new_NapCatRuntime acct) evs)).
      1 \<le> fst x \<and> fst x \<le> 10 \<and> snd x = setTimeout_ms (reconnect_delay (fst x)) \<and> snd x \<le> 60000"
    using timer_capped by (simp_all add: attempts_bounded_def list_all_iff)
  have sched: "\<not> isClosing r \<and> truthy (wsUrl (account r)) \<and> reconnectAttempts r < 10 \<longrightarrow>
      reconnectAttempts (scheduleReconnect r) = Suc (reconnectAttempts r) \<and>
      reconnectTimers (scheduleReconnect r) =
        reconnectTimers r @
        [(Suc (reconnectAttempts r), setTimeout_ms (reconnect_delay (Suc (reconnectAttempts r))))]"
    by (simp add: scheduleReconnect_def maxReconnectAttempts_def Let_def)
  have full: "\<not> isClosing r \<and> truthy (wsUrl (account r)) \<and> reconnectAttempts r \<ge> 10 \<longrightarrow>
      reconnectTimers (scheduleReconnect r) = reconnectTimers r \<and>
      scheduled (scheduleReconnect r) = scheduled r \<and>
      reconnectAttempts (scheduleReconnect r) = reconnectAttempts r \<and>
      errors (scheduleReconnect r) = errors r @ [''Max reconnect attempts reached'']"
    by (simp add: scheduleReconnect_def maxReconnectAttempts_def onError_def)
  show ?thesis
    using timer_values timer_capped [of n] cap reach sched full by blast
qed

theorem reconnect_backoff_schedule_witness:
  "scheduled (run (new_NapCatRuntime sample_account) (failing_connections 10 @ [SockClose 10])) =
     [(1, 3000), (2, 4500), (3, 6750), (4, 10125), (5, 15187), (6, 22781),
      (7, 34171), (8, 51257), (9, 60000), (10, 60000)] \<and>
   errors (run (new_NapCatRuntime sample_account) (failing_connections 10 @ [SockClose 10])) =
     [''Max reconnect attempts reached''] \<and>
   reconnectAttempts (run (new_NapCatRuntime sample_account) (failing_connections 10)) \<le> 10 \<and>
   reconnectTimers (scheduleReconnect (run (new_NapCatRuntime sample_account) (failing_connections 10))) = [] \<and>
   errors (scheduleReconnect (run (new_NapCatRuntime sample_account) (failing_connections 10))) =
     errors (run (new_NapCatRuntime sample_account) (failing_connections 10)) @
     [''Max reconnect attempts reached''] \<and>
   reconnectTimers (scheduleReconnect (new_NapCatRuntime sample_account)) = [(1, 3000)]"
  using reconnect_backoff_schedule [where acct = sample_account and evs = "failing_connections 10"
      and r = "run (new_NapCatRuntime sample_account) (failing_connections 10)"]
    reconnect_backoff_schedule [where r = "new_NapCatRuntime sample_account"]
    ten_failures ten_failures_errors ten_failures_state
  by (simp add: new_NapCatRuntime_def sample_account_def truthy_def)

section \<open>Correlation tokens\<close>

text \<open>
  C5. In every state a client can reach, and so in every state of a runtime's client,
  the tokens of the outstanding socket calls are pairwise different, and each is made
  from an issue time and a value of the counter
  \<open>wsSequence\<close>, which every socket call increments; tokens made from different
  counter values differ. A response frame whose token matches no pending request leaves
  the client, and so the table of pending requests, exactly as it was.
\<close>

theorem correlation_tokens_unique:
  "distinct (map fst (responseEmitter (client_run (new_NapCatApiClient config) ops))) \<and>
   (\<forall>l \<in> set (responseEmitter (client_run (new_NapCatApiClient config) ops)).
      \<exists>t s. fst l = make_echo t s \<and> s < wsSequence (client_run (new_NapCatApiClient config) ops)) \<and>
   distinct (map fst (responseEmitter (apiClient (run (new_NapCatRuntime config) evs)))) \<and>
   (ws c = Some sock \<longrightarrow>
      responseEmitter (snd (requestWs endpoint params now c)) =
        responseEmitter c @ [(make_echo now (wsSequence c), nextPromise c)] \<and>
      wsSequence (snd (requestWs endpoint params now c)) = Suc (wsSequence c)) \<and>
   (make_echo t1 s1 = make_echo t2 s2 \<longrightarrow> t1 = t2 \<and> s1 = s2) \<and>
   (echo payload \<notin> Some ` fst ` set (responseEmitter c) \<longrightarrow> client_step c (DoResponse payload) = c)"
proof -
  obtain ops' where "apiClient (run (new_NapCatRuntime config) evs) =
      client_run (new_NapCatApiClient config) ops'"
    using runtime_client_reachable by blast
  then have "client_inv (apiClient (run (new_NapCatRuntime config) evs))"
    using inv_client_run [OF inv_new, of config ops'] by simp
  then have rt: "distinct (map fst (responseEmitter (apiClient (run (new_NapCatRuntime config) evs))))"
    by (simp add: client_inv_def)
  have "client_inv (client_run (new_NapCatApiClient config) ops)"
    by (rule inv_client_run) (rule inv_new)
  then have "distinct (map fst (responseEmitter (client_run (new_NapCatApiClient config) ops)))"
    and "\<forall>l \<in> set (responseEmitter (client_run (new_NapCatApiClient config) ops)).
      \<exists>t s. fst l = make_echo t s \<and> s < wsSequence (client_run (new_NapCatApiClient config) ops)"
    by (simp_all add: client_inv_def)
  moreover have "ws c = Some sock \<longrightarrow>
      responseEmitter (snd (requestWs endpoint params now c)) =
        responseEmitter c @ [(make_echo now (wsSequence c), nextPromise c)] \<and>
      wsSequence (snd (requestWs endpoint params now c)) = Suc (wsSequence c)"
    by (simp add: requestWs_def Let_def)
  moreover have "make_echo t1 s1 = make_echo t2 s2 \<longrightarrow> t1 = t2 \<and> s1 = s2"
    using make_echo_inj by blast
  moreover have "echo payload \<notin> Some ` fst ` set (responseEmitter c) \<longrightarrow>
      client_step c (DoResponse payload) = c"
    using unknown_token_ignored by blast
  ultimately show ?thesis using rt by simp
qed

theorem correlation_tokens_unique_witness:
  "map fst (responseEmitter (client_run (new_NapCatApiClient sample_account)
      [DoSetWs (Some 0), DoRequest (\<lambda>_. OPEN) ''/send_msg'' ''{}'' 1000,
       DoRequest (\<lambda>_. OPEN) ''/get_login_info'' ''{}'' 1000])) = [''api_1000_0'', ''api_1000_1''] \<and>
   distinct (map fst (responseEmitter (client_run (new_NapCatApiClient sample_account)
      [DoSetWs (Some 0), DoRequest (\<lambda>_. OPEN) ''/send_msg'' ''{}'' 1000,
       DoRequest (\<lambda>_. OPEN) ''/get_login_info'' ''{}'' 1000]))) \<and>
   client_step (client_run (new_NapCatApiClient sample_account)
      [DoSetWs (Some 0), DoRequest (\<lambda>_. OPEN) ''/send_msg'' ''{}'' 1000,
       DoRequest (\<lambda>_. OPEN) ''/get_login_info'' ''{}'' 1000])
     (DoResponse (as_response (ok_frame ''api_1000_7'' ''late''))) =
   client_run (new_NapCatApiClient sample_account)
      [DoSetWs (Some 0), DoRequest (\<lambda>_. OPEN) ''/send_msg'' ''{}'' 1000,
       DoRequest (\<lambda>_. OPEN) ''/get_login_info'' ''{}'' 1000]"
proof -
  let ?c = "client_run (new_NapCatApiClient sample_account)
      [DoSetWs (Some 0), DoRequest (\<lambda>_. OPEN) ''/send_msg'' ''{}'' 1000,
       DoRequest (\<lambda>_. OPEN) ''/get_login_info'' ''{}'' 1000]"
  have echo_1: "make_echo 1000 (Suc 0) = ''api_1000_1''"
    by (simp add: make_echo_def string_of_nat.simps digit_char_def)
  have ls: "responseEmitter ?c = [(''api_1000_0'', 0), (''api_1000_1'', 1)]"
    by (simp add: client_run_def new_NapCatApiClient_def sample_account_def truthy_def setWs_def
        request_def requestWs_def Let_def echo_1000 echo_1)
  show ?thesis
    using correlation_tokens_unique [where config = sample_account
        and ops = "[DoSetWs (Some 0), DoRequest (\<lambda>_. OPEN) ''/send_msg'' ''{}'' 1000,
                    DoRequest (\<lambda>_. OPEN) ''/get_login_info'' ''{}'' 1000]"
        and c = ?c and payload = "as_response (ok_frame ''api_1000_7'' ''late'')"] ls
    by (simp add: ok_frame_def)
qed

section \<open>Normalizing a group message that mentions the bot\<close>

text \<open>
  C6. A group message with the segments text \<open>hello \<close>, mention of the bot's own
  identity (given as a string or as a number), text \<open> world\<close> passes the mention gate
  and is dispatched with the text \<open>hello  world\<close>: the text segments in order, nothing
  for the mention. A private message is never dropped for lacking a mention. (The
  sender passes the admin filter.)
\<close>

theorem group_mention_normalizes:
  assumes "message_type m = ''group''"
    and "ev_message m = Segments
           [\<lparr>seg_type = ''text'', seg_data = [(''text'', JString ''hello '')]\<rparr>,
            \<lparr>seg_type = ''at'', seg_data = [(''qq'', q)]\<rparr>,
            \<lparr>seg_type = ''text'', seg_data = [(''text'', JString '' world'')]\<rparr>]"
    and "q = JString (String_num (self_id m)) \<or> q = JNumber (self_id m)"
    and "adminUins acct = None \<or> adminUins acct = Some [] \<or> user_id m \<in> set (the (adminUins acct))"
  shows "isMentioned m \<and>
         onMessage acct m = Dispatched
           \<lparr>messageText = ''hello  world'', mediaUrl = None, isDirect = False,
            peerId = template_num (group_id m), channelId = ''group:'' @ template_num (group_id m)\<rparr> \<and>
         (\<forall>acct' m'. message_type m' = ''private'' \<longrightarrow> onMessage acct' m' \<noteq> IgnoredNotMentioned)"
proof -
  have men: "isMentioned m"
    using assms(2,3) by (auto simp: isMentioned_def String_json_def)
  have tx: "trim (extract_text (ev_message m)) = ''hello  world''"
    using assms(2) by (simp add: extract_text_def join_element_def String_json_def trim_def is_space_def)
  have med: "extract_media (ev_message m) = None"
    using assms(2) by (simp add: extract_media_def)
  have adm: "\<not> (adminUins acct \<noteq> None \<and> length (the (adminUins acct)) > 0 \<and>
         user_id m \<notin> set (the (adminUins acct)))"
    using assms(4) by (auto simp:)
  have "onMessage acct m = Dispatched
           \<lparr>messageText = ''hello  world'', mediaUrl = None, isDirect = False,
            peerId = template_num (group_id m), channelId = ''group:'' @ template_num (group_id m)\<rparr>"
    unfolding onMessage_def using adm men tx med assms(1)
    by (simp add: Let_def truthy_json_def channelId_of_def)
  moreover have "\<forall>acct' m'. message_type m' = ''private'' \<longrightarrow> onMessage acct' m' \<noteq> IgnoredNotMentioned"
    by (auto simp: onMessage_def Let_def)
  ultimately show ?thesis using men by blast
qed

theorem group_mention_normalizes_witness:
  "isMentioned sample_group_event \<and>
   onMessage sample_account sample_group_event = Dispatched
     \<lparr>messageText = ''hello  world'', mediaUrl = None, isDirect = False,
      peerId = ''555'', channelId = ''group:555''\<rparr> \<and>
   onMessage sample_account (sample_group_event\<lparr>message_type := ''private''\<rparr>) \<noteq> IgnoredNotMentioned"
  using group_mention_normalizes [where m = sample_group_event and q = "JString ''42''"
      and acct = sample_account]
  by (simp add: sample_group_event_def sample_account_def String_num_def template_num_def
      string_of_nat.simps digit_char_def)

section \<open>After \<open>stop()\<close>\<close>

text \<open>
  C7 (as the code has it). After \<open>stop()\<close>, whatever happens next, the runtime stays
  closing, \<open>reconnect()\<close> is never invoked again and no reconnect timer is armed again.
  A second \<open>stop()\<close> changes nothing. \<open>stop()\<close> does not touch the action client: the
  pending requests, their listeners and their timeouts stay as they were.
\<close>

theorem stop_ends_reconnecting:
  "isClosing (run (stop r) evs) \<and>
   reconnects (run (stop r) evs) = reconnects r \<and>
   scheduled (run (stop r) evs) = scheduled r \<and>
   stop (stop r) = stop r \<and>
   apiClient (stop r) = apiClient r"
proof -
  have "isClosing (stop r)" using quiet_stop [of r] by (simp add: quiet_def)
  then have "quiet (stop r) (run (stop r) evs)" by (rule quiet_run)
  then show ?thesis
    using quiet_stop [of r] stop_twice stop_client by (simp add: quiet_def)
qed


theorem stop_ends_reconnecting_witness:
  "reconnectTimers (run (new_NapCatRuntime sample_account) [Start 0 None, SockClose 0]) = [(1, 3000)] \<and>
   reconnects (run (stop (run (new_NapCatRuntime sample_account) [Start 0 None, SockClose 0]))
                 [ReconnectTimer 0 5 None, SockClose 0, Start 9 (Some ''bad url'')]) = 0 \<and>
   scheduled (run (stop (run (new_NapCatRuntime sample_account) [Start 0 None, SockClose 0]))
                 [ReconnectTimer 0 5 None, SockClose 0, Start 9 (Some ''bad url'')]) = [(1, 3000)]"
proof -
  let ?r = "run (new_NapCatRuntime sample_account) [Start 0 None, SockClose 0]"
  have first: "setTimeout_ms (reconnect_delay (Suc 0)) = 3000"
    using timer_values(1) by simp
  have "reconnectTimers ?r = [(1, 3000)] \<and> scheduled ?r = [(1, 3000)] \<and> reconnects ?r = 0"
    by (simp add: run_def new_NapCatRuntime_def sample_account_def start_def start_connect_def
        truthy_def on_close_def set_readyState_def setWs_def scheduleReconnect_def
        maxReconnectAttempts_def first Let_def)
  then show ?thesis
    using stop_ends_reconnecting [where r = ?r
        and evs = "[ReconnectTimer 0 5 None, SockClose 0, Start 9 (Some ''bad url'')]"]
    by simp
qed

text \<open>
  Callbacks of pending requests do fire after \<open>stop()\<close>: the login call that is
  outstanding when the runtime is stopped is rejected by its timeout, and is resolved by
  its response if the frame still arrives on the closing socket.
\<close>

theorem callbacks_fire_after_stop:
  "settled (apiClient (stop login_pending)) = [] \<and>
   settled (apiClient (run (stop login_pending) [RequestTimer 0])) =
     [(0, Rejected ''WebSocket API request timed out: get_login_info'')] \<and>
   settled (apiClient (run (stop login_pending) [SockMessage 0 (Some (ok_frame ''api_1000_0'' ''login-data''))])) =
     [(0, Resolved ''login-data'')]"
  by (simp add: run_def login_pending_eq stop_def close_socket_def on_message_def handlePayload_def
      ok_frame_def eval_client)

section \<open>Pending requests when the socket closes\<close>

text \<open>
  C8 (as the code has it). The close handler leaves the pending requests alone: their
  listeners, their timeouts and the settlements are the same after it as before. It
  only detaches the socket from the client, so that a later call without an HTTP
  endpoint fails with the "no transport available" error. In every state a client can
  reach, a listener disappears only through a response carrying its token or through
  the timeout of its own call, and the timeout rejects an outstanding call with the
  timeout error.
\<close>

theorem close_keeps_pending_requests:
  "responseEmitter (apiClient (on_close s r)) = responseEmitter (apiClient r) \<and>
   timeouts (apiClient (on_close s r)) = timeouts (apiClient r) \<and>
   settled (apiClient (on_close s r)) = settled (apiClient r) \<and>
   (s < length (sockets r) \<and> s_handlers (sockets r ! s) \<and> s_readyState (sockets r ! s) \<noteq> CLOSED \<longrightarrow>
      ws (apiClient (on_close s r)) = None \<and>
      (\<not> truthy (c_httpUrl (apiClient r)) \<longrightarrow>
         request rs endpoint body now (apiClient (on_close s r)) = Inl no_transport)) \<and>
   (c = client_run (new_NapCatApiClient config) ops \<and>
    l \<in> set (responseEmitter c) \<and> l \<notin> set (responseEmitter (client_step c op)) \<longrightarrow>
      (\<exists>resp. op = DoResponse resp \<and> echo resp = Some (fst l)) \<or> op = DoTimeout (snd l)) \<and>
   (c = client_run (new_NapCatApiClient config) ops \<and> pending_call e p action c \<longrightarrow>
      filter (\<lambda>x. fst x = p) (settled (on_timeout p c)) = [(p, Rejected (timeout_message action))])"
proof -
  have fields: "responseEmitter (apiClient (on_close s r)) = responseEmitter (apiClient r) \<and>
      timeouts (apiClient (on_close s r)) = timeouts (apiClient r) \<and>
      settled (apiClient (on_close s r)) = settled (apiClient r)"
    using on_close_client [of s r] by (auto simp: setWs_def)
  have detached: "s < length (sockets r) \<and> s_handlers (sockets r ! s) \<and>
      s_readyState (sockets r ! s) \<noteq> CLOSED \<longrightarrow>
      ws (apiClient (on_close s r)) = None \<and>
      (\<not> truthy (c_httpUrl (apiClient r)) \<longrightarrow>
         request rs endpoint body now (apiClient (on_close s r)) = Inl no_transport)"
    by (auto simp: on_close_def set_readyState_def scheduleReconnect_def onError_def Let_def
        setWs_def request_def)
  have only: "c = client_run (new_NapCatApiClient config) ops \<and>
      l \<in> set (responseEmitter c) \<and> l \<notin> set (responseEmitter (client_step c op)) \<longrightarrow>
      (\<exists>resp. op = DoResponse resp \<and> echo resp = Some (fst l)) \<or> op = DoTimeout (snd l)"
    using removed_listener_cause [of c l op] inv_client_run [OF inv_new, of config ops] by blast
  have failed: "c = client_run (new_NapCatApiClient config) ops \<and> pending_call e p action c \<longrightarrow>
      filter (\<lambda>x. fst x = p) (settled (on_timeout p c)) = [(p, Rejected (timeout_message action))]"
    using timeout_finishes [of c e p action] inv_client_run [OF inv_new, of config ops]
    by (auto simp: finished_call_def)
  show ?thesis using fields detached only failed by blast
qed

theorem close_keeps_pending_requests_witness:
  "responseEmitter (apiClient (on_close 0 login_pending)) = [(''api_1000_0'', 0)] \<and>
   ws (apiClient (on_close 0 login_pending)) = None \<and>
   request (\<lambda>_. OPEN) ''/send_msg'' ''{}'' 2000 (apiClient (on_close 0 login_pending)) = Inl no_transport \<and>
   (''api_1000_0'', 0) \<in> set (responseEmitter (apiClient login_pending)) \<and>
   (''api_1000_0'', 0) \<notin> set (responseEmitter (client_step (apiClient login_pending) (DoTimeout 0))) \<and>
   filter (\<lambda>x. fst x = 0) (settled (on_timeout 0 (apiClient login_pending))) =
     [(0, Rejected ''WebSocket API request timed out: get_login_info'')]"
proof -
  have reach: "client_run (new_NapCatApiClient sample_account)
      [DoSetWs (Some 0), DoRequest (\<lambda>_. OPEN) ''/get_login_info'' ''{}'' 1000] = apiClient login_pending"
    by (simp add: login_pending_eq client_run_def new_NapCatApiClient_def sample_account_def
        truthy_def setWs_def request_def requestWs_def Let_def echo_1000 strip_leading_slash_def)
  have pend: "pending_call ''api_1000_0'' 0 ''get_login_info'' (apiClient login_pending)"
    by (simp add: pending_call_def login_pending_eq)
  have ls: "responseEmitter (apiClient login_pending) = [(''api_1000_0'', 0)]"
    by (simp add: login_pending_eq)
  have before: "(''api_1000_0'', 0) \<in> set (responseEmitter (apiClient login_pending))"
    and after: "(''api_1000_0'', 0) \<notin> set (responseEmitter (client_step (apiClient login_pending) (DoTimeout 0)))"
    and sock: "0 < length (sockets login_pending) \<and> s_handlers (sockets login_pending ! 0) \<and>
      s_readyState (sockets login_pending ! 0) \<noteq> CLOSED \<and> \<not> truthy (c_httpUrl (apiClient login_pending))"
    by (simp_all add: login_pending_eq eval_client)
  show ?thesis
    using close_keeps_pending_requests [where r = login_pending and s = 0
        and c = "apiClient login_pending" and config = sample_account
        and ops = "[DoSetWs (Some 0), DoRequest (\<lambda>_. OPEN) ''/get_login_info'' ''{}'' 1000]"
        and l = "(''api_1000_0'', 0)" and op = "DoTimeout 0" and e = "''api_1000_0''" and p = 0
        and action = "''get_login_info''" and rs = "\<lambda>_. OPEN" and endpoint = "''/send_msg''"
        and body = "''{}''" and now = 2000]
      reach pend ls after sock
    by (simp add: timeout_message_def)
qed

text \<open>
  The login call that is outstanding when the socket closes is still pending after the
  close, with its timeout armed and nothing settled; it is rejected only when its
  timeout fires.
\<close>

theorem close_leaves_pending_requests:
  "responseEmitter (apiClient (run login_pending [SockClose 0])) = [(''api_1000_0'', 0)] \<and>
   timeouts (apiClient (run login_pending [SockClose 0])) = [(0, ''api_1000_0'', ''get_login_info'', 10000)] \<and>
   settled (apiClient (run login_pending [SockClose 0])) = [] \<and>
   settled (apiClient (run login_pending [SockClose 0, RequestTimer 0])) =
     [(0, Rejected ''WebSocket API request timed out: get_login_info'')]"
  by (simp add: run_def login_pending_eq on_close_def set_readyState_def scheduleReconnect_def
      sample_account_def maxReconnectAttempts_def eval_client)

section \<open>A media item that is a missing local file\<close>

text \<open>
  C9 (as the code has it). A reply whose single media item is an absolute path with no
  file behind it is sent, not refused: the item becomes an image segment whose file is
  the path prefixed with \<open>file://\<close>, after the text segment if the reply has text, and
  \<open>deliver\<close> issues that one send action. Only the send itself can fail.
\<close>

theorem missing_local_file_sent_as_file_reference:
  assumes "prefix ''/'' item" and "fs item = Missing" and "replyMedia_of payload = [item]"
  shows "fst (deliver fs send_error now m payload recent) =
           (case send_error of
              None \<Rightarrow> Sent (send_params m (OutSegments
                  ((if truthy (p_text payload) then [text_segment (the (p_text payload))] else []) @
                   [image_segment (''file://'' @ item)])))
            | Some err \<Rightarrow> SendFailed (send_params m (OutSegments
                  ((if truthy (p_text payload) then [text_segment (the (p_text payload))] else []) @
                   [image_segment (''file://'' @ item)]))) err) \<and>
         fired (fst (deliver fs send_error now m payload recent)) \<and>
         resolve_file fs item = ''file://'' @ item"
proof -
  have "\<not> prefix ''file://'' item"
    using assms(1) by (cases item) auto
  then have res: "resolve_file fs item = ''file://'' @ item"
    using assms(1,2) by (simp add: resolve_file_def)
  show ?thesis
    using assms(3) res
    by (simp add: deliver_def Let_def messageBody_of_def split: option.splits)
qed

theorem missing_local_file_witness:
  "fst (deliver (\<lambda>_. Missing) None 1700000001000 sample_group_event
          (media_reply None [''/tmp/missing.png'']) Map.empty) =
     Sent \<lparr>sp_message_type = ''group'', sp_user_id = None, sp_group_id = Some 555,
           sp_message = OutSegments [\<lparr>seg_type = ''image'',
               seg_data = [(''file'', JString ''file:///tmp/missing.png'')]\<rparr>]\<rparr>"
  using missing_local_file_sent_as_file_reference [where item = "''/tmp/missing.png''"
      and fs = "\<lambda>_. Missing" and payload = "media_reply None [''/tmp/missing.png'']"
      and send_error = None and now = 1700000001000 and m = sample_group_event and recent = Map.empty]
  by (simp add: media_reply_def replyMedia_of_def truthy_def send_params_def sample_group_event_def
      image_segment_def)

text \<open>The segment does not carry the item unchanged.\<close>

theorem missing_local_file_not_unchanged:
  "fst (deliver (\<lambda>_. Missing) None 1700000001000 sample_group_event
          (media_reply None [''/tmp/missing.png'']) Map.empty) \<noteq>
     Sent (send_params sample_group_event (OutSegments [image_segment ''/tmp/missing.png'']))"
  by (simp add: deliver_def Let_def media_reply_def replyMedia_of_def truthy_def messageBody_of_def
      resolve_file_def send_params_def sample_group_event_def image_segment_def)

section \<open>The admin allowlist\<close>

text \<open>
  C10. The allowlist filter applies only when \<open>adminUins\<close> is present and not empty: a
  message is ignored as coming from a non-admin exactly when the list is present, has an
  element, and lacks the sender. With the empty list every message is processed exactly
  as with no list.
\<close>

theorem empty_admin_list_is_no_allowlist:
  "onMessage (acct\<lparr>adminUins := Some []\<rparr>) m = onMessage (acct\<lparr>adminUins := None\<rparr>) m \<and>
   onMessage (acct\<lparr>adminUins := Some []\<rparr>) m \<noteq> IgnoredNonAdmin \<and>
   (onMessage acct m = IgnoredNonAdmin \<longleftrightarrow>
     (\<exists>xs. adminUins acct = Some xs \<and> xs \<noteq> [] \<and> user_id m \<notin> set xs))"
  by (auto simp: onMessage_def Let_def)

theorem empty_admin_list_witness:
  "onMessage (sample_account\<lparr>adminUins := Some []\<rparr>) sample_group_event = Dispatched
     \<lparr>messageText = ''hello  world'', mediaUrl = None, isDirect = False,
      peerId = ''555'', channelId = ''group:555''\<rparr> \<and>
   onMessage (sample_account\<lparr>adminUins := Some [5]\<rparr>) sample_group_event = IgnoredNonAdmin"
  using empty_admin_list_is_no_allowlist [where acct = sample_account and m = sample_group_event]
    empty_admin_list_is_no_allowlist [where acct = "sample_account\<lparr>adminUins := Some [5]\<rparr>"
      and m = sample_group_event]
  by (simp add: sample_group_event_def sample_account_def onMessage_def Let_def isMentioned_def
      String_json_def extract_text_def extract_media_def join_element_def trim_def is_space_def
      truthy_json_def channelId_of_def String_num_def template_num_def
      string_of_nat.simps digit_char_def)

end
